theory Spec2Isabelle
  imports Complex_Main
begin

section \<open>Rejection sampling for speculative decoding: the model\<close>

text \<open>
  The source is \<^verbatim>\<open>vllm/v1/sample/rejection_sampler.py\<close>.

  Conventions of the embedding.
  \<^item> A contiguous tensor is the flat, row-major list of its elements; its shape is passed
    next to it (\<open>batch_size\<close>, \<open>max_spec_len\<close>, \<open>vocab_size\<close>). The kernels address memory
    by offsets from a base pointer, and the model keeps their index arithmetic.
  \<^item> Token ids are \<open>int\<close> (64-bit in the source; nothing here can overflow).
  \<^item> A kernel instance (one program of the launch grid) is a function from the memory it
    may write to the memory after it ran. The programs of one launch write disjoint
    parts of the output, so the launch is the fold of the instances over the grid.
  \<^item> A list read \<open>xs ! i\<close> models a load. A load outside the tensor is undefined in the
    source as well; the theorems assume the shapes under which every load is in range.
\<close>

subsection \<open>Constants\<close>

definition PLACEHOLDER_TOKEN_ID :: int where
  "PLACEHOLDER_TOKEN_ID = - 1"

definition GREEDY_TEMPERATURE :: real where
  "GREEDY_TEMPERATURE = - 1"

subsection \<open>The per-row state of the two verifier kernels\<close>

text \<open>
  Both kernels keep the flags \<open>rejected\<close> and \<open>finished\<close> and the counter
  \<open>num_generated\<close>; \<open>output_mem\<close> is the memory behind \<open>output_token_ids_ptr\<close>.
\<close>

record kernel_state =
  rejected :: bool
  finished :: bool
  num_generated :: nat
  output_mem :: "int list"

definition initial_state :: "int list \<Rightarrow> kernel_state" where
  "initial_state output_token_ids =
     \<lparr>rejected = False, finished = False, num_generated = 0, output_mem = output_token_ids\<rparr>"

subsection \<open>\<open>rejection_greedy_sample_kernel\<close>\<close>

text \<open>The body of \<open>for pos in range(max_spec_len)\<close>.\<close>

definition greedy_body ::
  "int list \<Rightarrow> int list \<Rightarrow> nat \<Rightarrow> nat \<Rightarrow> nat \<Rightarrow> kernel_state \<Rightarrow> kernel_state" where
  "greedy_body draft_token_ids target_argmax max_spec_len seq_idx pos st =
     (if \<not> finished st then
        (let token_id = draft_token_ids ! (seq_idx * max_spec_len + pos) in
         if token_id = PLACEHOLDER_TOKEN_ID then st\<lparr>finished := True\<rparr>
         else
           (let draft_token_id = draft_token_ids ! (seq_idx * max_spec_len + pos);
                target_argmax_id = target_argmax ! (seq_idx * max_spec_len + pos)
            in if draft_token_id = target_argmax_id then
                 st\<lparr>output_mem :=
                      (output_mem st)[seq_idx * (max_spec_len + 1) + pos := draft_token_id],
                    num_generated := num_generated st + 1\<rparr>
               else
                 st\<lparr>rejected := True,
                    output_mem :=
                      (output_mem st)[seq_idx * (max_spec_len + 1) + pos := target_argmax_id],
                    num_generated := num_generated st + 1,
                    finished := True\<rparr>))
      else st)"

definition rejection_greedy_sample_kernel ::
  "int list \<Rightarrow> int list \<Rightarrow> int list \<Rightarrow> int list \<Rightarrow> bool list \<Rightarrow> nat \<Rightarrow> nat \<Rightarrow> int list" where
  "rejection_greedy_sample_kernel output_token_ids draft_token_ids target_argmax
       bonus_token_ids is_greedy max_spec_len seq_idx =
     (if \<not> is_greedy ! seq_idx then output_token_ids
      else
        (let st = fold (greedy_body draft_token_ids target_argmax max_spec_len seq_idx)
                    [0..<max_spec_len] (initial_state output_token_ids)
         in if \<not> rejected st then
              (output_mem st)[seq_idx * (max_spec_len + 1) + num_generated st :=
                 bonus_token_ids ! seq_idx]
            else output_mem st))"

subsection \<open>\<open>rejection_random_sample_kernel\<close>\<close>

text \<open>
  The probabilities are of any type with a division, an order and a one: the kernel only
  divides and compares, and what is proved about it does not depend on how the device
  rounds. \<open>draft_probs\<close> is the memory behind \<open>draft_probs_ptr\<close>, never read when
  \<open>IS_NGRAM\<close> holds. A token id that is not the placeholder is an index into the
  vocabulary, read as a natural number.
\<close>

text \<open>
  The address of element \<open>[seq_idx, pos, token]\<close> of a dense
  \<open>[batch_size, max_spec_len, vocab_size]\<close> tensor, as the kernel computes it.
\<close>

definition dense_index :: "nat \<Rightarrow> nat \<Rightarrow> nat \<Rightarrow> nat \<Rightarrow> nat \<Rightarrow> nat" where
  "dense_index max_spec_len vocab_size seq_idx pos token =
     seq_idx * max_spec_len * vocab_size + pos * vocab_size + token"

definition random_body ::
  "int list \<Rightarrow> ('f :: {inverse, ord, one}) list \<Rightarrow> 'f list \<Rightarrow> int list \<Rightarrow> 'f list
     \<Rightarrow> nat \<Rightarrow> nat \<Rightarrow> bool \<Rightarrow> nat \<Rightarrow> nat \<Rightarrow> kernel_state \<Rightarrow> kernel_state" where
  "random_body draft_token_ids draft_probs target_probs recovered_token_ids uniform_probs
       max_spec_len vocab_size IS_NGRAM seq_idx pos st =
     (if \<not> finished st then
        (let token_id = draft_token_ids ! (seq_idx * max_spec_len + pos) in
         if token_id = PLACEHOLDER_TOKEN_ID then st\<lparr>finished := True\<rparr>
         else
           (let draft_prob =
                  (if IS_NGRAM then 1
                   else draft_probs ! dense_index max_spec_len vocab_size seq_idx pos
                                        (nat token_id));
                target_prob = target_probs ! dense_index max_spec_len vocab_size seq_idx pos
                                               (nat token_id);
                uniform_prob = uniform_probs ! (seq_idx * max_spec_len + pos)
            in if target_prob / draft_prob \<ge> uniform_prob then
                 st\<lparr>output_mem :=
                      (output_mem st)[seq_idx * (max_spec_len + 1) + pos := token_id],
                    num_generated := num_generated st + 1\<rparr>
               else
                 (let recovered_token_id = recovered_token_ids ! (seq_idx * max_spec_len + pos)
                  in st\<lparr>rejected := True,
                        output_mem :=
                          (output_mem st)[seq_idx * (max_spec_len + 1) + pos := recovered_token_id],
                        num_generated := num_generated st + 1,
                        finished := True\<rparr>)))
      else st)"

definition rejection_random_sample_kernel ::
  "int list \<Rightarrow> int list \<Rightarrow> ('f :: {inverse, ord, one}) list \<Rightarrow> 'f list \<Rightarrow> int list
     \<Rightarrow> int list \<Rightarrow> 'f list \<Rightarrow> bool list \<Rightarrow> nat \<Rightarrow> nat \<Rightarrow> bool \<Rightarrow> nat \<Rightarrow> int list" where
  "rejection_random_sample_kernel output_token_ids draft_token_ids draft_probs target_probs
       bonus_token_ids recovered_token_ids uniform_probs is_greedy max_spec_len vocab_size
       IS_NGRAM seq_idx =
     (if is_greedy ! seq_idx then output_token_ids
      else
        (let st = fold (random_body draft_token_ids draft_probs target_probs recovered_token_ids
                          uniform_probs max_spec_len vocab_size IS_NGRAM seq_idx)
                    [0..<max_spec_len] (initial_state output_token_ids)
         in if \<not> rejected st then
              (output_mem st)[seq_idx * (max_spec_len + 1) + num_generated st :=
                 bonus_token_ids ! seq_idx]
            else output_mem st))"

subsection \<open>The launch grids \<open>[(batch_size, )]\<close> of the two verifiers\<close>

definition rejection_greedy_sample_grid ::
  "nat \<Rightarrow> int list \<Rightarrow> int list \<Rightarrow> int list \<Rightarrow> int list \<Rightarrow> bool list \<Rightarrow> nat \<Rightarrow> int list" where
  "rejection_greedy_sample_grid batch_size output_token_ids draft_token_ids target_argmax
       bonus_token_ids is_greedy max_spec_len =
     fold (\<lambda>seq_idx mem. rejection_greedy_sample_kernel mem draft_token_ids target_argmax
                            bonus_token_ids is_greedy max_spec_len seq_idx)
       [0..<batch_size] output_token_ids"

definition rejection_random_sample_grid ::
  "nat \<Rightarrow> int list \<Rightarrow> int list \<Rightarrow> ('f :: {inverse, ord, one}) list \<Rightarrow> 'f list \<Rightarrow> int list
     \<Rightarrow> int list \<Rightarrow> 'f list \<Rightarrow> bool list \<Rightarrow> nat \<Rightarrow> nat \<Rightarrow> bool \<Rightarrow> int list" where
  "rejection_random_sample_grid batch_size output_token_ids draft_token_ids draft_probs
       target_probs bonus_token_ids recovered_token_ids uniform_probs is_greedy max_spec_len
       vocab_size IS_NGRAM =
     fold (\<lambda>seq_idx mem. rejection_random_sample_kernel mem draft_token_ids draft_probs
                            target_probs bonus_token_ids recovered_token_ids uniform_probs
                            is_greedy max_spec_len vocab_size IS_NGRAM seq_idx)
       [0..<batch_size] output_token_ids"

subsection \<open>Tensor operations of \<open>rejection_sample\<close>\<close>

text \<open>
  From here on a float32 value is modelled by the real number it denotes: rounding,
  infinities and NaN are not modelled. HOL's \<open>x / 0\<close> is \<open>0\<close>, where the device gives an
  infinity or NaN; the theorems about quotients say when the divisor is not zero.
\<close>

text \<open>Row \<open>r\<close> of a contiguous tensor whose last dimension is \<open>n\<close>.\<close>

definition row_at :: "nat \<Rightarrow> 'a list \<Rightarrow> nat \<Rightarrow> 'a list" where
  "row_at n xs r = take n (drop (r * n) xs)"

text \<open>\<open>torch.argmax\<close> over one row: the index of the first maximal element.\<close>

fun argmax_from :: "('a :: linorder) list \<Rightarrow> nat \<Rightarrow> nat \<Rightarrow> 'a \<Rightarrow> nat" where
  "argmax_from [] i best_i best = best_i"
| "argmax_from (x # xs) i best_i best =
     (if best < x then argmax_from xs (i + 1) i x else argmax_from xs (i + 1) best_i best)"

definition argmax :: "('a :: linorder) list \<Rightarrow> nat" where
  "argmax xs = (case xs of [] \<Rightarrow> 0 | x # rest \<Rightarrow> argmax_from rest 1 0 x)"

text \<open>\<open>t.argmax(dim=-1)\<close> of a tensor of \<open>rows\<close> rows of width \<open>n\<close>.\<close>

definition argmax_last_dim :: "nat \<Rightarrow> nat \<Rightarrow> real list \<Rightarrow> int list" where
  "argmax_last_dim rows n xs = map (\<lambda>r. int (argmax (row_at n xs r))) [0..<rows]"

text \<open>
  \<open>torch.finfo(torch.float32).tiny\<close>: the smallest positive normal float32, 2 to the
  power -126 (the subnormal numbers below it are positive and smaller).
\<close>

definition FLOAT32_TINY :: real where
  "FLOAT32_TINY = 1 / 2 ^ 126"

text \<open>
  The residual rows before they are normalised (lines 163 to 174 of the source), one row
  per (request, position), in the order of the dense layout. In n-gram mode
  \<open>torch.where\<close> replaces the placeholder by index 0 and \<open>scatter_\<close> writes 0 at that
  index of the cloned target row; otherwise the row is
  \<open>clamp(target_probs - draft_probs, min=tiny)\<close>.
\<close>

definition safe_draft_token_id :: "int \<Rightarrow> int" where
  "safe_draft_token_id token_id = (if token_id = PLACEHOLDER_TOKEN_ID then 0 else token_id)"

definition residual_row :: "nat \<Rightarrow> int list \<Rightarrow> real list option \<Rightarrow> real list \<Rightarrow> nat \<Rightarrow> real list" where
  "residual_row vocab_size draft_token_ids draft_probs target_probs r =
     (case draft_probs of
        None \<Rightarrow>
          (row_at vocab_size target_probs r)[nat (safe_draft_token_id (draft_token_ids ! r)) := 0]
      | Some dp \<Rightarrow>
          map2 (\<lambda>t d. max (t - d) FLOAT32_TINY)
            (row_at vocab_size target_probs r) (row_at vocab_size dp r))"

text \<open>\<open>probs /= probs.sum(dim=-1, keepdim=True)\<close> on one row.\<close>

definition normalize_row :: "real list \<Rightarrow> real list" where
  "normalize_row row = map (\<lambda>x. x / sum_list row) row"

definition residual_probs ::
  "nat \<Rightarrow> nat \<Rightarrow> nat \<Rightarrow> int list \<Rightarrow> real list option \<Rightarrow> real list \<Rightarrow> real list list" where
  "residual_probs batch_size max_spec_len vocab_size draft_token_ids draft_probs target_probs =
     map (\<lambda>r. normalize_row (residual_row vocab_size draft_token_ids draft_probs target_probs r))
       [0..<batch_size * max_spec_len]"

text \<open>
  \<open>probs.div_(q.unsqueeze(dim=1)).argmax(dim=-1)\<close>: the row of request \<open>b\<close>, position
  \<open>m\<close> is row \<open>b * max_spec_len + m\<close> of \<open>probs\<close>; it is divided elementwise by row \<open>b\<close> of
  \<open>q\<close>, which has one row per request.
\<close>

definition sample_recovered_tokens ::
  "nat \<Rightarrow> nat \<Rightarrow> nat \<Rightarrow> real list list \<Rightarrow> real list \<Rightarrow> int list" where
  "sample_recovered_tokens batch_size max_spec_len vocab_size probs q =
     map (\<lambda>r. int (argmax (map2 (\<lambda>x e. x / e) (probs ! r)
                               (row_at vocab_size q (r div max_spec_len)))))
       [0..<batch_size * max_spec_len]"

subsection \<open>\<open>rejection_sample\<close>\<close>

text \<open>
  Modelled from the spec: the class \<open>SamplingMetadata\<close> is declared in
  \<^verbatim>\<open>vllm/v1/sample/metadata.py\<close>, which is not part of the source. The record has the
  fields that the source reads: the per-request temperature (a sentinel marks a greedy
  request) and the two flags that say the whole batch is greedy or random. Its
  \<open>generators\<close>, the per-request random sources, only decide
  which random source fills which part of the two random tensors; the model takes the
  tensors after they were filled, \<open>uniform_probs\<close> of shape \<open>[batch_size, max_spec_len]\<close> and
  \<open>q\<close> of shape \<open>[batch_size, vocab_size]\<close>, as arguments.
\<close>

record sampling_metadata =
  temperature :: "real list"
  all_greedy :: bool
  all_random :: bool

definition rejection_sample ::
  "nat \<Rightarrow> nat \<Rightarrow> nat \<Rightarrow> int list \<Rightarrow> real list option \<Rightarrow> real list \<Rightarrow> int list
     \<Rightarrow> sampling_metadata \<Rightarrow> real list \<Rightarrow> real list \<Rightarrow> int list" where
  "rejection_sample batch_size max_spec_len vocab_size draft_token_ids draft_probs target_probs
       bonus_token_ids md uniform_probs q =
     (let output_token_ids = replicate (batch_size * (max_spec_len + 1)) PLACEHOLDER_TOKEN_ID;
          is_greedy = map (\<lambda>t. t = GREEDY_TEMPERATURE) (temperature md);
          output_token_ids =
            (if \<not> all_random md then
               (let target_argmax =
                      argmax_last_dim (batch_size * max_spec_len) vocab_size target_probs
                in rejection_greedy_sample_grid batch_size output_token_ids draft_token_ids
                     target_argmax bonus_token_ids is_greedy max_spec_len)
             else output_token_ids)
      in if \<not> all_random md \<and> all_greedy md then output_token_ids
         else
           (let is_ngram = (draft_probs = None);
                probs = residual_probs batch_size max_spec_len vocab_size draft_token_ids
                          draft_probs target_probs;
                recovered_token_ids =
                  sample_recovered_tokens batch_size max_spec_len vocab_size probs q
            in rejection_random_sample_grid batch_size output_token_ids draft_token_ids
                 (case draft_probs of None \<Rightarrow> [] | Some dp \<Rightarrow> dp) target_probs bonus_token_ids
                 recovered_token_ids uniform_probs is_greedy max_spec_len vocab_size is_ngram))"

subsection \<open>\<open>RejectionSampler._async_copy_to_device\<close> and \<open>parse_output\<close>\<close>

text \<open>
  The exceptions that the source raises: the \<open>assert\<close> of the materializer, \<open>max\<close> of an
  empty list, and the lookup of a name that a module does not define.
\<close>

datatype error = AssertionError | ValueError | AttributeError

text \<open>\<open>a[start:start + len(vals)] = vals\<close> on a flat array.\<close>

definition store_slice :: "nat \<Rightarrow> 'a list \<Rightarrow> 'a list \<Rightarrow> 'a list" where
  "store_slice start vals mem = take start mem @ vals @ drop (start + length vals) mem"

text \<open>
  The staging buffer \<open>self.buffer\<close> (of \<open>max_num_tokens\<close> entries) is passed in and returned:
  the function overwrites its first \<open>batch_size * max_spec_len\<close> entries. The second
  component of the result is the data of the \<open>[batch_size, max_spec_len]\<close> tensor sent to the
  device. \<open>max\<close> of an empty list raises \<open>ValueError\<close>; the \<open>assert\<close> raises
  \<open>AssertionError\<close>.
\<close>

definition async_copy_to_device ::
  "nat \<Rightarrow> int list \<Rightarrow> int list list \<Rightarrow> error + (int list \<times> int list)" where
  "async_copy_to_device max_num_tokens buffer draft_token_ids =
     (let batch_size = length draft_token_ids;
          num_draft_tokens = map length draft_token_ids
      in if num_draft_tokens = [] then Inl ValueError
         else
           (let max_spec_len = Max (set num_draft_tokens)
            in if \<not> batch_size * max_spec_len \<le> max_num_tokens then Inl AssertionError
               else
                 (let draft_token_ids_np =
                        fold (\<lambda>(i, token_ids). store_slice (i * max_spec_len) token_ids)
                          (enumerate 0 draft_token_ids)
                          (replicate (batch_size * max_spec_len) PLACEHOLDER_TOKEN_ID)
                  in Inr (draft_token_ids_np @ drop (batch_size * max_spec_len) buffer,
                          draft_token_ids_np))))"

text \<open>\<open>tensor.tolist()\<close> of a contiguous \<open>[rows, n]\<close> tensor.\<close>

definition tolist :: "nat \<Rightarrow> nat \<Rightarrow> 'a list \<Rightarrow> 'a list list" where
  "tolist rows n xs = map (row_at n xs) [0..<rows]"

text \<open>The inner loop of \<open>parse_output\<close>: append until the first placeholder.\<close>

fun parse_row :: "int list \<Rightarrow> int list" where
  "parse_row [] = []"
| "parse_row (token_id # token_ids) =
     (if token_id = PLACEHOLDER_TOKEN_ID then [] else token_id # parse_row token_ids)"

definition parse_output :: "nat \<Rightarrow> nat \<Rightarrow> int list \<Rightarrow> int list list" where
  "parse_output rows n output_token_ids = map parse_row (tolist rows n output_token_ids)"

subsection \<open>\<open>compute_probs\<close> and its kernel\<close>

text \<open>
  \<open>tl.softmax\<close> of the Triton library: subtract the maximum, exponentiate, divide by the
  sum.
\<close>

definition softmax :: "real list \<Rightarrow> real list" where
  "softmax xs =
     (let z = map (\<lambda>x. x - Max (set xs)) xs;
          num = map exp z;
          den = sum_list num
      in map (\<lambda>e. e / den) num)"

text \<open>
  Line 342 of the source evaluates \<open>triton.next_power_of_two(vocab_size)\<close>. The Triton
  module defines no attribute of that name (its function is \<open>next_power_of_2\<close>), so the
  lookup raises \<open>AttributeError\<close>, for every argument.
\<close>

definition next_power_of_two :: "nat \<Rightarrow> error + nat" where
  "next_power_of_two n = Inl AttributeError"

text \<open>
  \<open>next_power_of_2\<close> of the Triton library, which the source does not call: the least
  power of two that is not below a positive \<open>n\<close>. It is the number of lanes that the
  kernel is written for, and is used only to state what the kernel does when it is
  launched with that many lanes.
\<close>

function power_of_two_from :: "nat \<Rightarrow> nat \<Rightarrow> nat" where
  "power_of_two_from k n = (if k = 0 \<or> n \<le> k then k else power_of_two_from (2 * k) n)"
  by pat_completeness auto
termination
  by (relation "measure (\<lambda>(k, n). n - k)") auto

definition next_power_of_2 :: "nat \<Rightarrow> nat" where
  "next_power_of_2 n = (if n = 0 then 0 else power_of_two_from 1 n)"

text \<open>
  The first row of request \<open>req_idx\<close> in the tightly packed \<open>[num_tokens, vocab_size]\<close>
  layout, read from the cumulative table, and the address of an element of that layout
  as the kernel computes it.
\<close>

definition start_idx_of :: "nat list \<Rightarrow> nat \<Rightarrow> nat" where
  "start_idx_of cu_num_draft_tokens req_idx =
     (if req_idx = 0 then 0 else cu_num_draft_tokens ! (req_idx - 1))"

definition packed_index :: "nat list \<Rightarrow> nat \<Rightarrow> nat \<Rightarrow> nat \<Rightarrow> nat \<Rightarrow> nat" where
  "packed_index cu_num_draft_tokens vocab_size req_idx pos vocab_offset =
     (start_idx_of cu_num_draft_tokens req_idx + pos) * vocab_size + vocab_offset"

text \<open>
  One program \<open>(req_idx, pos)\<close> of the grid. The block has \<open>PADDED_VOCAB_SIZE\<close> lanes. The
  load is masked by \<open>vocab_offset < vocab_size\<close> and names no \<open>other\<close> value: what a masked
  lane holds is not fixed by the source, and is the parameter \<open>masked_lane\<close> here. The
  store is masked in the same way. The table holds counts: \<open>end_idx - start_idx\<close> is
  below zero in the source only where the natural-number difference is zero, and the
  test \<open>pos >= end_idx - start_idx\<close> holds in both readings then.
\<close>

definition compute_probs_kernel ::
  "(nat \<Rightarrow> real) \<Rightarrow> real list \<Rightarrow> real list \<Rightarrow> real list \<Rightarrow> nat list \<Rightarrow> nat \<Rightarrow> nat \<Rightarrow> nat
     \<Rightarrow> nat \<Rightarrow> real list" where
  "compute_probs_kernel masked_lane output_prob logits temperature_ptr cu_num_draft_tokens
       vocab_size PADDED_VOCAB_SIZE req_idx pos =
     (let start_idx = start_idx_of cu_num_draft_tokens req_idx;
          end_idx = cu_num_draft_tokens ! req_idx
      in if pos \<ge> end_idx - start_idx then output_prob
         else
           (let vocab_offset = [0..<PADDED_VOCAB_SIZE];
                logits_block =
                  map (\<lambda>off. if off < vocab_size
                             then logits ! packed_index cu_num_draft_tokens vocab_size req_idx
                                             pos off
                             else masked_lane off) vocab_offset;
                temp = temperature_ptr ! req_idx;
                output_block =
                  (if temp = GREEDY_TEMPERATURE then logits_block
                   else softmax (map (\<lambda>x. x / temp) logits_block))
            in fold (\<lambda>off mem. if off < vocab_size
                                then mem[packed_index cu_num_draft_tokens vocab_size req_idx
                                           pos off := output_block ! off]
                                else mem) vocab_offset output_prob))"

text \<open>
  The launch \<open>compute_probs_kernel[(batch_size, max_spec_len)](...)\<close> with
  \<open>PADDED_VOCAB_SIZE\<close> lanes: \<open>output_prob\<close> is the content of the allocation made by
  \<open>torch.empty_like\<close> (not initialised, so an argument), and
  \<open>batch_size = temperature.shape[0]\<close> (\<open>temperature_tensor\<close> is the argument
  \<open>temperature\<close> of the source).
\<close>

definition compute_probs_grid ::
  "(nat \<Rightarrow> real) \<Rightarrow> real list \<Rightarrow> nat \<Rightarrow> real list \<Rightarrow> real list \<Rightarrow> nat list \<Rightarrow> nat
     \<Rightarrow> nat \<Rightarrow> real list" where
  "compute_probs_grid masked_lane output_prob vocab_size logits temperature_tensor
       cu_num_draft_tokens max_spec_len PADDED_VOCAB_SIZE =
     fold (\<lambda>(req_idx, pos) mem.
             compute_probs_kernel masked_lane mem logits temperature_tensor cu_num_draft_tokens
               vocab_size PADDED_VOCAB_SIZE req_idx pos)
       (List.product [0..<length temperature_tensor] [0..<max_spec_len]) output_prob"

text \<open>
  \<open>compute_probs\<close>: the arguments of the launch are evaluated before the launch, so the
  error of \<open>triton.next_power_of_two(vocab_size)\<close> is raised before any program of the grid
  runs, and the function returns nothing.
\<close>

definition compute_probs ::
  "(nat \<Rightarrow> real) \<Rightarrow> real list \<Rightarrow> nat \<Rightarrow> real list \<Rightarrow> real list \<Rightarrow> nat list \<Rightarrow> nat
     \<Rightarrow> error + real list" where
  "compute_probs masked_lane output_prob vocab_size logits temperature_tensor
       cu_num_draft_tokens max_spec_len =
     (case next_power_of_two vocab_size of
        Inl e \<Rightarrow> Inl e
      | Inr PADDED_VOCAB_SIZE \<Rightarrow>
          Inr (compute_probs_grid masked_lane output_prob vocab_size logits temperature_tensor
                 cu_num_draft_tokens max_spec_len PADDED_VOCAB_SIZE))"

subsection \<open>\<open>RejectionSampler.forward\<close>\<close>


subsection \<open>Notions used to state the properties\<close>

text \<open>
  Both verifier loops have one shape: at position \<open>pos\<close> the row holds the token
  \<open>tok pos\<close>, the test \<open>acc pos\<close> accepts it or not, and \<open>repl pos\<close> is what a rejection
  writes. \<open>scan_row\<close> is that loop with the bonus step, for a row that starts at \<open>base\<close>.
\<close>

definition scan_body ::
  "(nat \<Rightarrow> int) \<Rightarrow> (nat \<Rightarrow> bool) \<Rightarrow> (nat \<Rightarrow> int) \<Rightarrow> nat \<Rightarrow> nat \<Rightarrow> kernel_state \<Rightarrow> kernel_state" where
  "scan_body tok acc repl base pos st =
     (if finished st then st
      else if tok pos = PLACEHOLDER_TOKEN_ID then st\<lparr>finished := True\<rparr>
      else if acc pos then
        st\<lparr>output_mem := (output_mem st)[base + pos := tok pos],
           num_generated := num_generated st + 1\<rparr>
      else
        st\<lparr>rejected := True,
           output_mem := (output_mem st)[base + pos := repl pos],
           num_generated := num_generated st + 1,
           finished := True\<rparr>)"

definition scan_row ::
  "(nat \<Rightarrow> int) \<Rightarrow> (nat \<Rightarrow> bool) \<Rightarrow> (nat \<Rightarrow> int) \<Rightarrow> nat \<Rightarrow> nat \<Rightarrow> int \<Rightarrow> int list \<Rightarrow> int list" where
  "scan_row tok acc repl base max_spec_len bonus output_token_ids =
     (let st = fold (scan_body tok acc repl base) [0..<max_spec_len]
                 (initial_state output_token_ids)
      in if \<not> rejected st then (output_mem st)[base + num_generated st := bonus]
         else output_mem st)"

text \<open>The memory after the tokens of positions \<open>0, ..., p - 1\<close> were stored in a row.\<close>

definition write_prefix :: "nat \<Rightarrow> (nat \<Rightarrow> int) \<Rightarrow> nat \<Rightarrow> int list \<Rightarrow> int list" where
  "write_prefix base tok p mem = fold (\<lambda>q mem. mem[base + q := tok q]) [0..<p] mem"

text \<open>The number of leading positions that hold a token and pass the test.\<close>

definition accepted_len :: "(nat \<Rightarrow> int) \<Rightarrow> (nat \<Rightarrow> bool) \<Rightarrow> nat \<Rightarrow> nat" where
  "accepted_len tok acc max_spec_len =
     length (takeWhile (\<lambda>q. tok q \<noteq> PLACEHOLDER_TOKEN_ID \<and> acc q) [0..<max_spec_len])"

text \<open>
  The readings of one row by the two kernels: the draft token, the greedy test, the
  random test, and the draft probability the random test divides by.
\<close>

definition draft_at :: "int list \<Rightarrow> nat \<Rightarrow> nat \<Rightarrow> nat \<Rightarrow> int" where
  "draft_at draft_token_ids max_spec_len seq_idx pos =
     draft_token_ids ! (seq_idx * max_spec_len + pos)"

definition greedy_accepts :: "int list \<Rightarrow> int list \<Rightarrow> nat \<Rightarrow> nat \<Rightarrow> nat \<Rightarrow> bool" where
  "greedy_accepts draft_token_ids target_argmax max_spec_len seq_idx pos \<longleftrightarrow>
     draft_token_ids ! (seq_idx * max_spec_len + pos)
       = target_argmax ! (seq_idx * max_spec_len + pos)"

definition draft_prob_at ::
  "int list \<Rightarrow> ('f :: {inverse, ord, one}) list \<Rightarrow> nat \<Rightarrow> nat \<Rightarrow> bool \<Rightarrow> nat \<Rightarrow> nat \<Rightarrow> 'f" where
  "draft_prob_at draft_token_ids draft_probs max_spec_len vocab_size IS_NGRAM seq_idx pos =
     (if IS_NGRAM then 1
      else draft_probs ! dense_index max_spec_len vocab_size seq_idx pos
                           (nat (draft_token_ids ! (seq_idx * max_spec_len + pos))))"

definition random_accepts ::
  "int list \<Rightarrow> ('f :: {inverse, ord, one}) list \<Rightarrow> 'f list \<Rightarrow> 'f list \<Rightarrow> nat \<Rightarrow> nat \<Rightarrow> bool
     \<Rightarrow> nat \<Rightarrow> nat \<Rightarrow> bool" where
  "random_accepts draft_token_ids draft_probs target_probs uniform_probs max_spec_len
       vocab_size IS_NGRAM seq_idx pos \<longleftrightarrow>
     target_probs ! dense_index max_spec_len vocab_size seq_idx pos
                      (nat (draft_token_ids ! (seq_idx * max_spec_len + pos)))
       / draft_prob_at draft_token_ids draft_probs max_spec_len vocab_size IS_NGRAM seq_idx pos
     \<ge> uniform_probs ! (seq_idx * max_spec_len + pos)"

text \<open>
  Modelled from the spec: the cumulative-offset table is built by the caller of
  \<open>forward\<close>, which is not part of the source. Entry \<open>i\<close> is the number of draft tokens of
  the requests \<open>0, ..., i\<close>, so that the slice of a request has its draft length.
\<close>

definition cumulative_lengths :: "nat list \<Rightarrow> nat list" where
  "cumulative_lengths num_draft_tokens =
     map (\<lambda>i. sum_list (take (Suc i) num_draft_tokens)) [0..<length num_draft_tokens]"

section \<open>Properties\<close>

subsection \<open>The common loop\<close>

lemma length_write_prefix [simp]: "length (write_prefix base tok p mem) = length mem"
  by (induction p) (simp_all add: write_prefix_def)

lemma write_prefix_Suc:
  "write_prefix base tok (Suc p) mem = (write_prefix base tok p mem)[base + p := tok p]"
  by (simp add: write_prefix_def)

lemma write_prefix_0 [simp]: "write_prefix base tok 0 mem = mem"
  by (simp add: write_prefix_def)

lemma nth_write_prefix:
  "j < length mem \<Longrightarrow>
   write_prefix base tok p mem ! j =
     (if base \<le> j \<and> j < base + p then tok (j - base) else mem ! j)"
proof (induction p)
  case 0
  then show ?case by simp
next
  case (Suc p)
  show ?case
  proof (cases "j = base + p")
    case True
    with Suc.prems show ?thesis by (simp add: write_prefix_Suc)
  next
    case False
    with Suc show ?thesis by (auto simp: write_prefix_Suc)
  qed
qed

lemma scan_finished:
  "finished st \<Longrightarrow> fold (scan_body tok acc repl base) ps st = st"
  by (induction ps) (simp_all add: scan_body_def)

lemma scan_accept_run:
  "\<forall>q<p. tok q \<noteq> PLACEHOLDER_TOKEN_ID \<and> acc q \<Longrightarrow>
   fold (scan_body tok acc repl base) [0..<p] (initial_state mem) =
     \<lparr>rejected = False, finished = False, num_generated = p,
      output_mem = write_prefix base tok p mem\<rparr>"
proof (induction p)
  case 0
  then show ?case by (simp add: initial_state_def)
next
  case (Suc p)
  then show ?case
    by (simp add: scan_body_def write_prefix_Suc)
qed

lemma upt_split3: "p < m \<Longrightarrow> [0..<m] = [0..<p] @ p # [Suc p..<m]"
proof -
  assume "p < m"
  then have "[0..<m] = [0..<p] @ [p..<m]"
    using upt_add_eq_append [of 0 p "m - p"] by simp
  with \<open>p < m\<close> show ?thesis by (simp add: upt_conv_Cons)
qed

lemma scan_row_reject:
  assumes "p < m" and "\<forall>q<p. tok q \<noteq> PLACEHOLDER_TOKEN_ID \<and> acc q"
    and "tok p \<noteq> PLACEHOLDER_TOKEN_ID" and "\<not> acc p"
  shows "scan_row tok acc repl base m bonus mem = (write_prefix base tok p mem)[base + p := repl p]"
  using assms
  by (simp add: scan_row_def upt_split3 [of p m] scan_accept_run scan_body_def scan_finished)

lemma scan_row_accept:
  assumes "p \<le> m" and "\<forall>q<p. tok q \<noteq> PLACEHOLDER_TOKEN_ID \<and> acc q"
    and "p = m \<or> tok p = PLACEHOLDER_TOKEN_ID"
  shows "scan_row tok acc repl base m bonus mem = (write_prefix base tok p mem)[base + p := bonus]"
proof (cases "p = m")
  case True
  with assms show ?thesis by (simp add: scan_row_def scan_accept_run)
next
  case False
  with assms have "p < m" and "tok p = PLACEHOLDER_TOKEN_ID" by auto
  with assms(2) show ?thesis
    by (simp add: scan_row_def upt_split3 [of p m] scan_accept_run scan_body_def scan_finished)
qed

subsection \<open>The first position at which the scan stops\<close>

lemma accepted_len_le: "accepted_len tok acc m \<le> m"
  unfolding accepted_len_def
  using length_takeWhile_le [of _ "[0..<m]"] by simp

lemma accepted_len_run:
  assumes "q < accepted_len tok acc m"
  shows "tok q \<noteq> PLACEHOLDER_TOKEN_ID \<and> acc q"
proof -
  let ?P = "\<lambda>q. tok q \<noteq> PLACEHOLDER_TOKEN_ID \<and> acc q"
  from assms have q: "q < length (takeWhile ?P [0..<m])"
    by (simp add: accepted_len_def)
  then have "takeWhile ?P [0..<m] ! q \<in> set (takeWhile ?P [0..<m])"
    by (rule nth_mem)
  then have "?P (takeWhile ?P [0..<m] ! q)"
    by (rule set_takeWhileD [THEN conjunct2])
  moreover have "takeWhile ?P [0..<m] ! q = [0..<m] ! q"
    using q by (rule takeWhile_nth)
  moreover have "q < m"
    using assms accepted_len_le [of tok acc m] by simp
  ultimately show ?thesis by simp
qed

lemma accepted_len_stop:
  assumes "accepted_len tok acc m < m"
  shows "tok (accepted_len tok acc m) = PLACEHOLDER_TOKEN_ID \<or> \<not> acc (accepted_len tok acc m)"
proof -
  let ?P = "\<lambda>q. tok q \<noteq> PLACEHOLDER_TOKEN_ID \<and> acc q"
  from assms have "length (takeWhile ?P [0..<m]) < length [0..<m]"
    by (simp add: accepted_len_def)
  then have "\<not> ?P ([0..<m] ! length (takeWhile ?P [0..<m]))"
    by (rule nth_length_takeWhile)
  with assms show ?thesis by (simp add: accepted_len_def)
qed

lemma accepted_len_eqI:
  assumes "p \<le> m" and run: "\<forall>q<p. tok q \<noteq> PLACEHOLDER_TOKEN_ID \<and> acc q"
    and stop: "p = m \<or> tok p = PLACEHOLDER_TOKEN_ID \<or> \<not> acc p"
  shows "accepted_len tok acc m = p"
proof (rule antisym)
  show "accepted_len tok acc m \<le> p"
  proof (rule ccontr)
    assume "\<not> accepted_len tok acc m \<le> p"
    then have "p < accepted_len tok acc m" by simp
    from accepted_len_run [OF this] accepted_len_le [of tok acc m] this stop
    show False by auto
  qed
  show "p \<le> accepted_len tok acc m"
  proof (rule ccontr)
    assume "\<not> p \<le> accepted_len tok acc m"
    then have lt: "accepted_len tok acc m < p" by simp
    with \<open>p \<le> m\<close> have "accepted_len tok acc m < m" by simp
    from accepted_len_stop [OF this] run lt show False by auto
  qed
qed

text \<open>The closed form of the loop.\<close>

lemma scan_row_closed:
  "scan_row tok acc repl base m bonus mem =
     (write_prefix base tok (accepted_len tok acc m) mem)
       [base + accepted_len tok acc m :=
          (if accepted_len tok acc m < m \<and> tok (accepted_len tok acc m) \<noteq> PLACEHOLDER_TOKEN_ID
           then repl (accepted_len tok acc m) else bonus)]"
proof -
  define p where "p = accepted_len tok acc m"
  have le: "p \<le> m" and run: "\<forall>q<p. tok q \<noteq> PLACEHOLDER_TOKEN_ID \<and> acc q"
    unfolding p_def using accepted_len_le accepted_len_run by blast+
  show ?thesis
  proof (cases "p < m \<and> tok p \<noteq> PLACEHOLDER_TOKEN_ID")
    case True
    then have "\<not> acc p"
      using accepted_len_stop [of tok acc m] by (auto simp: p_def)
    with True run show ?thesis
      unfolding p_def [symmetric] by (simp add: scan_row_reject)
  next
    case False
    with le have "p = m \<or> tok p = PLACEHOLDER_TOKEN_ID" by auto
    from scan_row_accept [OF le run this] False show ?thesis
      unfolding p_def [symmetric] by auto
  qed
qed

lemma length_scan_row [simp]: "length (scan_row tok acc repl base m bonus mem) = length mem"
  by (simp add: scan_row_closed)

lemma nth_scan_row:
  assumes "j < length mem"
  shows "scan_row tok acc repl base m bonus mem ! j =
     (if j = base + accepted_len tok acc m then
        (if accepted_len tok acc m < m \<and> tok (accepted_len tok acc m) \<noteq> PLACEHOLDER_TOKEN_ID
         then repl (accepted_len tok acc m) else bonus)
      else if base \<le> j \<and> j < base + accepted_len tok acc m then tok (j - base)
      else mem ! j)"
  using assms by (simp add: scan_row_closed nth_list_update nth_write_prefix)

subsection \<open>The two kernels are instances of the common loop\<close>

lemma greedy_body_scan:
  "greedy_body draft_token_ids target_argmax max_spec_len seq_idx =
   scan_body (draft_at draft_token_ids max_spec_len seq_idx)
     (greedy_accepts draft_token_ids target_argmax max_spec_len seq_idx)
     (\<lambda>pos. target_argmax ! (seq_idx * max_spec_len + pos))
     (seq_idx * (max_spec_len + 1))"
  by (intro ext) (simp add: greedy_body_def scan_body_def Let_def draft_at_def greedy_accepts_def)

lemma greedy_kernel_scan:
  "rejection_greedy_sample_kernel mem draft_token_ids target_argmax bonus_token_ids is_greedy
     max_spec_len seq_idx =
   (if is_greedy ! seq_idx then
      scan_row (draft_at draft_token_ids max_spec_len seq_idx)
        (greedy_accepts draft_token_ids target_argmax max_spec_len seq_idx)
        (\<lambda>pos. target_argmax ! (seq_idx * max_spec_len + pos))
        (seq_idx * (max_spec_len + 1)) max_spec_len (bonus_token_ids ! seq_idx) mem
    else mem)"
  unfolding rejection_greedy_sample_kernel_def scan_row_def greedy_body_scan Let_def by simp

lemma random_body_scan:
  "random_body draft_token_ids draft_probs target_probs recovered_token_ids uniform_probs
     max_spec_len vocab_size IS_NGRAM seq_idx =
   scan_body (draft_at draft_token_ids max_spec_len seq_idx)
     (random_accepts draft_token_ids draft_probs target_probs uniform_probs max_spec_len
        vocab_size IS_NGRAM seq_idx)
     (\<lambda>pos. recovered_token_ids ! (seq_idx * max_spec_len + pos))
     (seq_idx * (max_spec_len + 1))"
  by (intro ext)
    (simp add: random_body_def scan_body_def Let_def draft_at_def random_accepts_def
      draft_prob_at_def)

lemma random_kernel_scan:
  "rejection_random_sample_kernel mem draft_token_ids draft_probs target_probs bonus_token_ids
     recovered_token_ids uniform_probs is_greedy max_spec_len vocab_size IS_NGRAM seq_idx =
   (if is_greedy ! seq_idx then mem
    else
      scan_row (draft_at draft_token_ids max_spec_len seq_idx)
        (random_accepts draft_token_ids draft_probs target_probs uniform_probs max_spec_len
           vocab_size IS_NGRAM seq_idx)
        (\<lambda>pos. recovered_token_ids ! (seq_idx * max_spec_len + pos))
        (seq_idx * (max_spec_len + 1)) max_spec_len (bonus_token_ids ! seq_idx) mem)"
  unfolding rejection_random_sample_kernel_def scan_row_def random_body_scan Let_def by simp

lemma row_index_in_range:
  "(seq_idx :: nat) < batch_size \<Longrightarrow> q \<le> m \<Longrightarrow> seq_idx * (m + 1) + q < batch_size * (m + 1)"
proof -
  assume a: "seq_idx < batch_size" and b: "q \<le> m"
  then have "Suc seq_idx * (m + 1) \<le> batch_size * (m + 1)"
    by (intro mult_le_mono1) simp
  with b show ?thesis by simp
qed

lemma accepted_len_ge:
  assumes "p \<le> m" and run: "\<forall>q<p. tok q \<noteq> PLACEHOLDER_TOKEN_ID \<and> acc q"
  shows "p \<le> accepted_len tok acc m"
proof (rule ccontr)
  assume "\<not> p \<le> accepted_len tok acc m"
  then have lt: "accepted_len tok acc m < p" by simp
  with \<open>p \<le> m\<close> have "accepted_len tok acc m < m" by simp
  from accepted_len_stop [OF this] run lt show False by auto
qed

subsection \<open>Rows of the output\<close>

lemma length_row_at:
  "r < rows \<Longrightarrow> length xs = rows * n \<Longrightarrow> length (row_at n xs r) = n"
proof -
  assume a: "r < rows" and b: "length xs = rows * n"
  from a have "Suc r * n \<le> rows * n" by (intro mult_le_mono1) simp
  with b show ?thesis by (simp add: row_at_def)
qed

lemma nth_row_at:
  "r < rows \<Longrightarrow> length xs = rows * n \<Longrightarrow> c < n \<Longrightarrow> row_at n xs r ! c = xs ! (r * n + c)"
proof -
  assume a: "r < rows" and b: "length xs = rows * n" and c: "c < n"
  from a b have "r * n \<le> length xs" by simp
  with c show ?thesis by (simp add: row_at_def)
qed

text \<open>A row of a placeholder-filled output after the common loop ran on it.\<close>

lemma scan_row_row:
  assumes "seq_idx < batch_size"
    and "mem = replicate (batch_size * (m + 1)) PLACEHOLDER_TOKEN_ID"
  shows "row_at (m + 1) (scan_row tok acc repl (seq_idx * (m + 1)) m bonus mem) seq_idx =
     map tok [0..<accepted_len tok acc m]
     @ [if accepted_len tok acc m < m \<and> tok (accepted_len tok acc m) \<noteq> PLACEHOLDER_TOKEN_ID
        then repl (accepted_len tok acc m) else bonus]
     @ replicate (m - accepted_len tok acc m) PLACEHOLDER_TOKEN_ID"
proof (rule nth_equalityI)
  define a where "a = accepted_len tok acc m"
  have a: "a \<le> m" unfolding a_def by (rule accepted_len_le)
  have len: "length (scan_row tok acc repl (seq_idx * (m + 1)) m bonus mem) = batch_size * (m + 1)"
    using assms(2) by simp
  show "length (row_at (m + 1) (scan_row tok acc repl (seq_idx * (m + 1)) m bonus mem) seq_idx) =
    length (map tok [0..<accepted_len tok acc m]
     @ [if accepted_len tok acc m < m \<and> tok (accepted_len tok acc m) \<noteq> PLACEHOLDER_TOKEN_ID
        then repl (accepted_len tok acc m) else bonus]
     @ replicate (m - accepted_len tok acc m) PLACEHOLDER_TOKEN_ID)"
    using a length_row_at [OF assms(1) len] by (simp add: a_def)
  fix c
  assume "c < length (row_at (m + 1) (scan_row tok acc repl (seq_idx * (m + 1)) m bonus mem) seq_idx)"
  then have c: "c < m + 1"
    using length_row_at [OF assms(1) len] by simp
  then have inr: "seq_idx * (m + 1) + c < length mem"
    using row_index_in_range [OF assms(1), of c m] assms(2) by simp
  have "row_at (m + 1) (scan_row tok acc repl (seq_idx * (m + 1)) m bonus mem) seq_idx ! c
      = scan_row tok acc repl (seq_idx * (m + 1)) m bonus mem ! (seq_idx * (m + 1) + c)"
    using assms(1) len c by (rule nth_row_at)
  also have "\<dots> = (if c = a then
        (if a < m \<and> tok a \<noteq> PLACEHOLDER_TOKEN_ID then repl a else bonus)
      else if c < a then tok c else PLACEHOLDER_TOKEN_ID)"
    using inr assms(2) unfolding nth_scan_row [OF inr] a_def [symmetric] by auto
  also have "\<dots> = (map tok [0..<a]
     @ [if a < m \<and> tok a \<noteq> PLACEHOLDER_TOKEN_ID then repl a else bonus]
     @ replicate (m - a) PLACEHOLDER_TOKEN_ID) ! c"
    using a c by (auto simp: nth_append nth_Cons')
  finally show "row_at (m + 1) (scan_row tok acc repl (seq_idx * (m + 1)) m bonus mem) seq_idx ! c
    = (map tok [0..<accepted_len tok acc m]
     @ [if accepted_len tok acc m < m \<and> tok (accepted_len tok acc m) \<noteq> PLACEHOLDER_TOKEN_ID
        then repl (accepted_len tok acc m) else bonus]
     @ replicate (m - accepted_len tok acc m) PLACEHOLDER_TOKEN_ID) ! c"
    unfolding a_def .
qed

lemma parse_row_placeholders [simp]: "parse_row (replicate k PLACEHOLDER_TOKEN_ID) = []"
  by (cases k) simp_all

lemma parse_row_tokens:
  "PLACEHOLDER_TOKEN_ID \<notin> set ts \<Longrightarrow>
   parse_row (ts @ replicate k PLACEHOLDER_TOKEN_ID) = ts"
  by (induction ts) auto

lemma parse_row_tokens_bonus:
  "PLACEHOLDER_TOKEN_ID \<notin> set ts \<Longrightarrow> x \<noteq> PLACEHOLDER_TOKEN_ID \<Longrightarrow>
   parse_row (ts @ [x] @ replicate k PLACEHOLDER_TOKEN_ID) = ts @ [x]"
  using parse_row_tokens [of "ts @ [x]" k] by simp

lemma scan_row_first_failure:
  assumes inr: "base + m < length mem" and "p \<le> m"
    and run: "\<forall>q<p. tok q \<noteq> PLACEHOLDER_TOKEN_ID \<and> acc q"
  shows "(\<forall>q<p. scan_row tok acc repl base m bonus mem ! (base + q) = tok q)
       \<and> (p < m \<and> tok p \<noteq> PLACEHOLDER_TOKEN_ID \<and> \<not> acc p \<longrightarrow>
            scan_row tok acc repl base m bonus mem ! (base + p) = repl p
            \<and> (\<forall>q. p < q \<and> q \<le> m \<longrightarrow>
                  scan_row tok acc repl base m bonus mem ! (base + q) = mem ! (base + q)))"
proof (intro conjI allI impI)
  fix q
  assume "q < p"
  moreover have "p \<le> accepted_len tok acc m"
    using \<open>p \<le> m\<close> run by (rule accepted_len_ge)
  ultimately show "scan_row tok acc repl base m bonus mem ! (base + q) = tok q"
    using inr \<open>p \<le> m\<close> by (simp add: nth_scan_row)
next
  assume rej: "p < m \<and> tok p \<noteq> PLACEHOLDER_TOKEN_ID \<and> \<not> acc p"
  then have a: "accepted_len tok acc m = p"
    using run by (intro accepted_len_eqI) auto
  show "scan_row tok acc repl base m bonus mem ! (base + p) = repl p"
    using inr rej by (simp add: nth_scan_row a)
  fix q
  assume "p < q \<and> q \<le> m"
  then show "scan_row tok acc repl base m bonus mem ! (base + q) = mem ! (base + q)"
    using inr by (simp add: nth_scan_row a)
qed

lemma scan_row_stop_without_failure:
  assumes inr: "base + m < length mem" and "p \<le> m"
    and run: "\<forall>q<p. tok q \<noteq> PLACEHOLDER_TOKEN_ID \<and> acc q"
    and stop: "p = m \<or> tok p = PLACEHOLDER_TOKEN_ID"
  shows "scan_row tok acc repl base m bonus mem ! (base + p) = bonus
       \<and> (\<forall>q. p < q \<and> q \<le> m \<longrightarrow>
             scan_row tok acc repl base m bonus mem ! (base + q) = mem ! (base + q))"
proof -
  have a: "accepted_len tok acc m = p"
    using \<open>p \<le> m\<close> run stop by (intro accepted_len_eqI) auto
  show ?thesis
    using inr \<open>p \<le> m\<close> stop by (auto simp: nth_scan_row a)
qed

subsection \<open>The greedy verifier\<close>

text \<open>
  Claim C1. In a greedy row the kernel scans the positions from the left. Let \<open>p\<close> be a
  position such that every position before it holds a draft token equal to the target
  arg-max. Then the output holds the draft token at every position before \<open>p\<close>. If
  moreover position \<open>p\<close> holds a draft token that differs from the target arg-max (the
  first mismatch), the output holds the target arg-max there, which is not the draft
  token, and every later position of the row, the bonus slot included, is left as it
  was: nothing is written after a mismatch. If instead position \<open>p\<close> holds the
  placeholder (the first placeholder), the scan stops there: whatever the draft matrix
  and the target arg-max hold at \<open>p\<close> and after it, the output holds the bonus token at
  \<open>p\<close> and every later position of the row is left as it was. If \<open>p\<close> is
  \<open>max_spec_len\<close>, the bonus token is in the last cell of the row.
\<close>

theorem greedy_verifier_scan:
  assumes greedy: "is_greedy ! seq_idx"
    and shape: "seq_idx < batch_size"
      "length output_token_ids = batch_size * (max_spec_len + 1)"
      "length draft_token_ids = batch_size * max_spec_len"
      "length target_argmax = batch_size * max_spec_len"
      "length bonus_token_ids = batch_size" "length is_greedy = batch_size"
    and p: "p \<le> max_spec_len"
    and run: "\<forall>q<p. draft_token_ids ! (seq_idx * max_spec_len + q) \<noteq> PLACEHOLDER_TOKEN_ID
                \<and> draft_token_ids ! (seq_idx * max_spec_len + q)
                    = target_argmax ! (seq_idx * max_spec_len + q)"
  shows "(\<forall>q<p. rejection_greedy_sample_kernel output_token_ids draft_token_ids target_argmax
                  bonus_token_ids is_greedy max_spec_len seq_idx ! (seq_idx * (max_spec_len + 1) + q)
                = draft_token_ids ! (seq_idx * max_spec_len + q))
       \<and> (p < max_spec_len
            \<and> draft_token_ids ! (seq_idx * max_spec_len + p) \<noteq> PLACEHOLDER_TOKEN_ID
            \<and> draft_token_ids ! (seq_idx * max_spec_len + p)
                \<noteq> target_argmax ! (seq_idx * max_spec_len + p)
          \<longrightarrow> rejection_greedy_sample_kernel output_token_ids draft_token_ids target_argmax
                  bonus_token_ids is_greedy max_spec_len seq_idx ! (seq_idx * (max_spec_len + 1) + p)
                = target_argmax ! (seq_idx * max_spec_len + p)
            \<and> rejection_greedy_sample_kernel output_token_ids draft_token_ids target_argmax
                  bonus_token_ids is_greedy max_spec_len seq_idx ! (seq_idx * (max_spec_len + 1) + p)
                \<noteq> draft_token_ids ! (seq_idx * max_spec_len + p)
            \<and> (\<forall>q. p < q \<and> q \<le> max_spec_len \<longrightarrow>
                  rejection_greedy_sample_kernel output_token_ids draft_token_ids target_argmax
                    bonus_token_ids is_greedy max_spec_len seq_idx ! (seq_idx * (max_spec_len + 1) + q)
                  = output_token_ids ! (seq_idx * (max_spec_len + 1) + q)))
       \<and> (p < max_spec_len
            \<and> draft_token_ids ! (seq_idx * max_spec_len + p) = PLACEHOLDER_TOKEN_ID
          \<longrightarrow> rejection_greedy_sample_kernel output_token_ids draft_token_ids target_argmax
                  bonus_token_ids is_greedy max_spec_len seq_idx ! (seq_idx * (max_spec_len + 1) + p)
                = bonus_token_ids ! seq_idx
            \<and> (\<forall>q. p < q \<and> q \<le> max_spec_len \<longrightarrow>
                  rejection_greedy_sample_kernel output_token_ids draft_token_ids target_argmax
                    bonus_token_ids is_greedy max_spec_len seq_idx ! (seq_idx * (max_spec_len + 1) + q)
                  = output_token_ids ! (seq_idx * (max_spec_len + 1) + q)))
       \<and> (p = max_spec_len
          \<longrightarrow> rejection_greedy_sample_kernel output_token_ids draft_token_ids target_argmax
                  bonus_token_ids is_greedy max_spec_len seq_idx
                  ! (seq_idx * (max_spec_len + 1) + max_spec_len)
                = bonus_token_ids ! seq_idx)"
proof -
  define base where "base = seq_idx * (max_spec_len + 1)"
  define K where "K = rejection_greedy_sample_kernel output_token_ids draft_token_ids
    target_argmax bonus_token_ids is_greedy max_spec_len seq_idx"
  define tok where "tok = draft_at draft_token_ids max_spec_len seq_idx"
  define acc where "acc = greedy_accepts draft_token_ids target_argmax max_spec_len seq_idx"
  define repl where "repl = (\<lambda>pos. target_argmax ! (seq_idx * max_spec_len + pos))"
  have K: "K = scan_row tok acc repl base max_spec_len (bonus_token_ids ! seq_idx)
                 output_token_ids"
    unfolding K_def base_def tok_def acc_def repl_def
    by (simp only: greedy_kernel_scan greedy if_True)
  have inr: "base + max_spec_len < length output_token_ids"
    using row_index_in_range [OF shape(1), of max_spec_len max_spec_len] shape(2)
    by (simp add: base_def)
  have run': "\<forall>q<p. tok q \<noteq> PLACEHOLDER_TOKEN_ID \<and> acc q"
    using run unfolding tok_def acc_def draft_at_def greedy_accepts_def by blast
  have fail: "(\<forall>q<p. K ! (base + q) = tok q)
       \<and> (p < max_spec_len \<and> tok p \<noteq> PLACEHOLDER_TOKEN_ID \<and> \<not> acc p \<longrightarrow>
            K ! (base + p) = repl p
            \<and> (\<forall>q. p < q \<and> q \<le> max_spec_len \<longrightarrow>
                  K ! (base + q) = output_token_ids ! (base + q)))"
    unfolding K by (rule scan_row_first_failure [OF inr p run'])
  have stop: "K ! (base + p) = bonus_token_ids ! seq_idx
       \<and> (\<forall>q. p < q \<and> q \<le> max_spec_len \<longrightarrow>
             K ! (base + q) = output_token_ids ! (base + q))"
    if "p = max_spec_len \<or> tok p = PLACEHOLDER_TOKEN_ID"
    unfolding K using inr p run' that by (rule scan_row_stop_without_failure)
  from fail stop show ?thesis
    unfolding K_def [symmetric] base_def [symmetric]
    unfolding tok_def acc_def repl_def draft_at_def greedy_accepts_def
    by auto
qed

theorem greedy_verifier_scan_witness:
  "rejection_greedy_sample_kernel [- 1, - 1, - 1] [5, 7] [5, 9] [42] [True] 2 0 ! 0 = 5
   \<and> rejection_greedy_sample_kernel [- 1, - 1, - 1] [5, 7] [5, 9] [42] [True] 2 0 ! 1 = 9
   \<and> rejection_greedy_sample_kernel [- 1, - 1, - 1] [5, 7] [5, 9] [42] [True] 2 0 ! 2 = - 1
   \<and> rejection_greedy_sample_kernel [- 1, - 1, - 1] [5, - 1] [5, 3] [42] [True] 2 0 ! 0 = 5
   \<and> rejection_greedy_sample_kernel [- 1, - 1, - 1] [5, - 1] [5, 3] [42] [True] 2 0 ! 1 = 42
   \<and> rejection_greedy_sample_kernel [- 1, - 1, - 1] [5, - 1] [5, 3] [42] [True] 2 0 ! 2 = - 1
   \<and> rejection_greedy_sample_kernel [- 1, - 1, - 1] [5, 7] [5, 7] [42] [True] 2 0 ! 2 = 42"
proof -
  have mismatch:
    "rejection_greedy_sample_kernel [- 1, - 1, - 1] [5, 7] [5, 9] [42] [True] 2 0 ! 0 = 5
     \<and> rejection_greedy_sample_kernel [- 1, - 1, - 1] [5, 7] [5, 9] [42] [True] 2 0 ! 1 = 9
     \<and> rejection_greedy_sample_kernel [- 1, - 1, - 1] [5, 7] [5, 9] [42] [True] 2 0 ! 2 = - 1"
    using greedy_verifier_scan [where is_greedy = "[True]" and seq_idx = 0 and batch_size = 1
        and output_token_ids = "[- 1, - 1, - 1]" and max_spec_len = 2
        and draft_token_ids = "[5, 7]" and target_argmax = "[5, 9]"
        and bonus_token_ids = "[42]" and p = 1]
    by (simp add: PLACEHOLDER_TOKEN_ID_def)
  have placeholder:
    "rejection_greedy_sample_kernel [- 1, - 1, - 1] [5, - 1] [5, 3] [42] [True] 2 0 ! 0 = 5
     \<and> rejection_greedy_sample_kernel [- 1, - 1, - 1] [5, - 1] [5, 3] [42] [True] 2 0 ! 1 = 42
     \<and> rejection_greedy_sample_kernel [- 1, - 1, - 1] [5, - 1] [5, 3] [42] [True] 2 0 ! 2 = - 1"
    using greedy_verifier_scan [where is_greedy = "[True]" and seq_idx = 0 and batch_size = 1
        and output_token_ids = "[- 1, - 1, - 1]" and max_spec_len = 2
        and draft_token_ids = "[5, - 1]" and target_argmax = "[5, 3]"
        and bonus_token_ids = "[42]" and p = 1]
    by (simp add: PLACEHOLDER_TOKEN_ID_def)
  have full:
    "rejection_greedy_sample_kernel [- 1, - 1, - 1] [5, 7] [5, 7] [42] [True] 2 0 ! 2 = 42"
    using greedy_verifier_scan [where is_greedy = "[True]" and seq_idx = 0 and batch_size = 1
        and output_token_ids = "[- 1, - 1, - 1]" and max_spec_len = 2
        and draft_token_ids = "[5, 7]" and target_argmax = "[5, 7]"
        and bonus_token_ids = "[42]" and p = 2]
    by (simp add: PLACEHOLDER_TOKEN_ID_def less_Suc_eq numeral_2_eq_2)
  from mismatch placeholder full show ?thesis by blast
qed

subsection \<open>The random verifier\<close>

text \<open>
  Claim C2. In a random row, \<open>random_accepts\<close> is the test
  \<open>target_prob / draft_prob \<ge> uniform_prob\<close> of the kernel, with \<open>draft_prob = 1\<close> in
  n-gram mode (last conjunct). Let \<open>p\<close> be a position such that every position before it
  holds a draft token that passes the test. Then the output holds the draft tokens at
  the positions before \<open>p\<close> (they were accepted and the scan went on). If position \<open>p\<close>
  holds a draft token that fails the test, the output holds the entry of
  \<open>recovered_token_ids\<close> for this row and position there, and every later position of the
  row is left as it was. The theorem holds for every type of probabilities with a
  division and an order, so for float32 as well as for the real numbers.
\<close>

theorem random_verifier_scan:
  fixes target_probs :: "('f :: {inverse, ord, one}) list"
  assumes random: "\<not> is_greedy ! seq_idx"
    and shape: "seq_idx < batch_size"
      "length output_token_ids = batch_size * (max_spec_len + 1)"
      "length draft_token_ids = batch_size * max_spec_len"
      "length target_probs = batch_size * max_spec_len * vocab_size"
      "IS_NGRAM \<or> length draft_probs = batch_size * max_spec_len * vocab_size"
      "length uniform_probs = batch_size * max_spec_len"
      "length recovered_token_ids = batch_size * max_spec_len"
      "length bonus_token_ids = batch_size" "length is_greedy = batch_size"
    and vocab: "\<forall>t \<in> set draft_token_ids. t = PLACEHOLDER_TOKEN_ID \<or> 0 \<le> t \<and> t < int vocab_size"
    and p: "p \<le> max_spec_len"
    and run: "\<forall>q<p. draft_token_ids ! (seq_idx * max_spec_len + q) \<noteq> PLACEHOLDER_TOKEN_ID
                \<and> random_accepts draft_token_ids draft_probs target_probs uniform_probs
                    max_spec_len vocab_size IS_NGRAM seq_idx q"
  shows "(\<forall>q<p. rejection_random_sample_kernel output_token_ids draft_token_ids draft_probs
                  target_probs bonus_token_ids recovered_token_ids uniform_probs is_greedy
                  max_spec_len vocab_size IS_NGRAM seq_idx ! (seq_idx * (max_spec_len + 1) + q)
                = draft_token_ids ! (seq_idx * max_spec_len + q))
       \<and> (p < max_spec_len
            \<and> draft_token_ids ! (seq_idx * max_spec_len + p) \<noteq> PLACEHOLDER_TOKEN_ID
            \<and> \<not> random_accepts draft_token_ids draft_probs target_probs uniform_probs
                    max_spec_len vocab_size IS_NGRAM seq_idx p
          \<longrightarrow> rejection_random_sample_kernel output_token_ids draft_token_ids draft_probs
                  target_probs bonus_token_ids recovered_token_ids uniform_probs is_greedy
                  max_spec_len vocab_size IS_NGRAM seq_idx ! (seq_idx * (max_spec_len + 1) + p)
                = recovered_token_ids ! (seq_idx * max_spec_len + p)
            \<and> (\<forall>q. p < q \<and> q \<le> max_spec_len \<longrightarrow>
                  rejection_random_sample_kernel output_token_ids draft_token_ids draft_probs
                    target_probs bonus_token_ids recovered_token_ids uniform_probs is_greedy
                    max_spec_len vocab_size IS_NGRAM seq_idx ! (seq_idx * (max_spec_len + 1) + q)
                  = output_token_ids ! (seq_idx * (max_spec_len + 1) + q)))
       \<and> (\<forall>pos. random_accepts draft_token_ids draft_probs target_probs uniform_probs
                   max_spec_len vocab_size IS_NGRAM seq_idx pos
                 \<longleftrightarrow> target_probs ! dense_index max_spec_len vocab_size seq_idx pos
                           (nat (draft_token_ids ! (seq_idx * max_spec_len + pos)))
                       / (if IS_NGRAM then 1
                          else draft_probs ! dense_index max_spec_len vocab_size seq_idx pos
                                 (nat (draft_token_ids ! (seq_idx * max_spec_len + pos))))
                     \<ge> uniform_probs ! (seq_idx * max_spec_len + pos))"
proof -
  define base where "base = seq_idx * (max_spec_len + 1)"
  define K where "K = rejection_random_sample_kernel output_token_ids draft_token_ids draft_probs
    target_probs bonus_token_ids recovered_token_ids uniform_probs is_greedy max_spec_len
    vocab_size IS_NGRAM seq_idx"
  define tok where "tok = draft_at draft_token_ids max_spec_len seq_idx"
  define acc where "acc = random_accepts draft_token_ids draft_probs target_probs uniform_probs
    max_spec_len vocab_size IS_NGRAM seq_idx"
  define repl where "repl = (\<lambda>pos. recovered_token_ids ! (seq_idx * max_spec_len + pos))"
  have K: "K = scan_row tok acc repl base max_spec_len (bonus_token_ids ! seq_idx)
                 output_token_ids"
    unfolding K_def base_def tok_def acc_def repl_def
    by (simp only: random_kernel_scan random if_False)
  have inr: "base + max_spec_len < length output_token_ids"
    using row_index_in_range [OF shape(1), of max_spec_len max_spec_len] shape(2)
    by (simp add: base_def)
  have run': "\<forall>q<p. tok q \<noteq> PLACEHOLDER_TOKEN_ID \<and> acc q"
    using run unfolding tok_def acc_def draft_at_def by blast
  have test: "\<forall>pos. acc pos
                 \<longleftrightarrow> target_probs ! dense_index max_spec_len vocab_size seq_idx pos
                           (nat (draft_token_ids ! (seq_idx * max_spec_len + pos)))
                       / (if IS_NGRAM then 1
                          else draft_probs ! dense_index max_spec_len vocab_size seq_idx pos
                                 (nat (draft_token_ids ! (seq_idx * max_spec_len + pos))))
                     \<ge> uniform_probs ! (seq_idx * max_spec_len + pos)"
    unfolding acc_def random_accepts_def draft_prob_at_def by simp
  from scan_row_first_failure [OF inr p run', of repl "bonus_token_ids ! seq_idx"] test
  show ?thesis
    unfolding K_def [symmetric] base_def [symmetric] K
    unfolding tok_def repl_def draft_at_def acc_def [symmetric]
    by blast
qed

theorem random_verifier_scan_witness:
  "rejection_random_sample_kernel [- 1, - 1, - 1] [1, 1] [] [1 / 4, 3 / 4, 3 / 4, 1 / 4 :: real]
       [42] [0, 0] [1 / 2, 9 / 10] [False] 2 2 True 0 ! 0 = 1
   \<and> rejection_random_sample_kernel [- 1, - 1, - 1] [1, 1] [] [1 / 4, 3 / 4, 3 / 4, 1 / 4 :: real]
       [42] [0, 0] [1 / 2, 9 / 10] [False] 2 2 True 0 ! 1 = 0
   \<and> rejection_random_sample_kernel [- 1, - 1, - 1] [1, 1] [] [1 / 4, 3 / 4, 3 / 4, 1 / 4 :: real]
       [42] [0, 0] [1 / 2, 9 / 10] [False] 2 2 True 0 ! 2 = - 1
   \<and> random_accepts [1, 1] [] [1 / 4, 3 / 4, 3 / 4, 1 / 4 :: real] [1 / 2, 9 / 10] 2 2 True 0 0
   \<and> \<not> random_accepts [1, 1] [] [1 / 4, 3 / 4, 3 / 4, 1 / 4 :: real] [1 / 2, 9 / 10] 2 2 True 0 1"
  using random_verifier_scan [where is_greedy = "[False]" and seq_idx = 0 and batch_size = 1
      and output_token_ids = "[- 1, - 1, - 1]" and max_spec_len = 2 and vocab_size = 2
      and draft_token_ids = "[1, 1]" and draft_probs = "[]"
      and target_probs = "[1 / 4, 3 / 4, 3 / 4, 1 / 4 :: real]"
      and uniform_probs = "[1 / 2, 9 / 10]" and recovered_token_ids = "[0, 0]"
      and bonus_token_ids = "[42]" and IS_NGRAM = True and p = 1]
  by (simp add: PLACEHOLDER_TOKEN_ID_def random_accepts_def draft_prob_at_def dense_index_def)

lemma map_draft_at:
  assumes "seq_idx < batch_size" and "length draft_token_ids = batch_size * max_spec_len"
    and "n \<le> max_spec_len"
  shows "map (draft_at draft_token_ids max_spec_len seq_idx) [0..<n]
         = take n (row_at max_spec_len draft_token_ids seq_idx)"
proof (rule nth_equalityI)
  show "length (map (draft_at draft_token_ids max_spec_len seq_idx) [0..<n])
        = length (take n (row_at max_spec_len draft_token_ids seq_idx))"
    using assms length_row_at [OF assms(1,2)] by simp
  fix c
  assume "c < length (map (draft_at draft_token_ids max_spec_len seq_idx) [0..<n])"
  then have c: "c < n" by simp
  with assms(3) have "c < max_spec_len" by simp
  from nth_row_at [OF assms(1,2) this] c
  show "map (draft_at draft_token_ids max_spec_len seq_idx) [0..<n] ! c
        = take n (row_at max_spec_len draft_token_ids seq_idx) ! c"
    by (simp add: draft_at_def)
qed

lemma scan_row_all_accepted:
  assumes "seq_idx < batch_size"
    and "mem = replicate (batch_size * (m + 1)) PLACEHOLDER_TOKEN_ID"
    and "n \<le> m" and run: "\<forall>q<n. tok q \<noteq> PLACEHOLDER_TOKEN_ID \<and> acc q"
    and stop: "n = m \<or> tok n = PLACEHOLDER_TOKEN_ID"
  shows "row_at (m + 1) (scan_row tok acc repl (seq_idx * (m + 1)) m bonus mem) seq_idx =
     map tok [0..<n] @ [bonus] @ replicate (m - n) PLACEHOLDER_TOKEN_ID"
proof -
  have "accepted_len tok acc m = n"
    using assms(3) run stop by (intro accepted_len_eqI) auto
  with scan_row_row [OF assms(1,2), of tok acc repl bonus] stop show ?thesis
    by auto
qed

subsection \<open>Rows without a rejection\<close>

text \<open>
  Claim C3. Let the row of request \<open>seq_idx\<close> hold \<open>n\<close> draft tokens (placeholders
  after them), let the output be filled with placeholders, as \<open>rejection_sample\<close> does
  before it launches the kernels, and let the bonus token be a token. If the row is
  greedy and every draft token equals the target arg-max, or the row is random and every
  draft token passes the test, then the output row is the \<open>n\<close> draft tokens, the bonus
  token, and placeholders; what \<open>parse_output\<close> extracts from it is the draft tokens
  followed by the bonus token (so \<open>n + 1\<close> tokens, the last one the bonus token). With
  \<open>n = 0\<close> the bonus token is at index 0.
\<close>

theorem no_rejection_row:
  fixes target_probs :: "('f :: {inverse, ord, one}) list"
  assumes shape: "seq_idx < batch_size"
      "length draft_token_ids = batch_size * max_spec_len"
      "length bonus_token_ids = batch_size" "length is_greedy = batch_size"
    and init: "output_token_ids = replicate (batch_size * (max_spec_len + 1)) PLACEHOLDER_TOKEN_ID"
    and n: "n \<le> max_spec_len"
    and tokens: "\<forall>q<n. draft_token_ids ! (seq_idx * max_spec_len + q) \<noteq> PLACEHOLDER_TOKEN_ID"
    and len: "n = max_spec_len
              \<or> draft_token_ids ! (seq_idx * max_spec_len + n) = PLACEHOLDER_TOKEN_ID"
    and bonus: "bonus_token_ids ! seq_idx \<noteq> PLACEHOLDER_TOKEN_ID"
  shows "(is_greedy ! seq_idx
          \<and> (\<forall>q<n. draft_token_ids ! (seq_idx * max_spec_len + q)
                      = target_argmax ! (seq_idx * max_spec_len + q))
          \<longrightarrow> row_at (max_spec_len + 1)
                (rejection_greedy_sample_kernel output_token_ids draft_token_ids target_argmax
                   bonus_token_ids is_greedy max_spec_len seq_idx) seq_idx
              = take n (row_at max_spec_len draft_token_ids seq_idx)
                @ [bonus_token_ids ! seq_idx]
                @ replicate (max_spec_len - n) PLACEHOLDER_TOKEN_ID
            \<and> parse_row (row_at (max_spec_len + 1)
                (rejection_greedy_sample_kernel output_token_ids draft_token_ids target_argmax
                   bonus_token_ids is_greedy max_spec_len seq_idx) seq_idx)
              = take n (row_at max_spec_len draft_token_ids seq_idx)
                @ [bonus_token_ids ! seq_idx])
       \<and> (\<not> is_greedy ! seq_idx
          \<and> (\<forall>q<n. random_accepts draft_token_ids draft_probs target_probs uniform_probs
                      max_spec_len vocab_size IS_NGRAM seq_idx q)
          \<longrightarrow> row_at (max_spec_len + 1)
                (rejection_random_sample_kernel output_token_ids draft_token_ids draft_probs
                   target_probs bonus_token_ids recovered_token_ids uniform_probs is_greedy
                   max_spec_len vocab_size IS_NGRAM seq_idx) seq_idx
              = take n (row_at max_spec_len draft_token_ids seq_idx)
                @ [bonus_token_ids ! seq_idx]
                @ replicate (max_spec_len - n) PLACEHOLDER_TOKEN_ID
            \<and> parse_row (row_at (max_spec_len + 1)
                (rejection_random_sample_kernel output_token_ids draft_token_ids draft_probs
                   target_probs bonus_token_ids recovered_token_ids uniform_probs is_greedy
                   max_spec_len vocab_size IS_NGRAM seq_idx) seq_idx)
              = take n (row_at max_spec_len draft_token_ids seq_idx)
                @ [bonus_token_ids ! seq_idx])"
proof -
  define tok where "tok = draft_at draft_token_ids max_spec_len seq_idx"
  define row where "row = take n (row_at max_spec_len draft_token_ids seq_idx)"
  have row: "map tok [0..<n] = row"
    unfolding tok_def row_def using shape(1,2) n by (rule map_draft_at)
  have tok: "\<forall>q<n. tok q \<noteq> PLACEHOLDER_TOKEN_ID"
    using tokens by (simp add: tok_def draft_at_def)
  have stop: "n = max_spec_len \<or> tok n = PLACEHOLDER_TOKEN_ID"
    using len by (simp add: tok_def draft_at_def)
  have clean: "PLACEHOLDER_TOKEN_ID \<notin> set row"
    using tok unfolding row [symmetric] by auto
  have parse: "parse_row (row @ [bonus_token_ids ! seq_idx]
                 @ replicate (max_spec_len - n) PLACEHOLDER_TOKEN_ID)
               = row @ [bonus_token_ids ! seq_idx]"
    using clean bonus by (rule parse_row_tokens_bonus)
  have any: "row_at (max_spec_len + 1)
               (scan_row tok acc repl (seq_idx * (max_spec_len + 1)) max_spec_len
                  (bonus_token_ids ! seq_idx) output_token_ids) seq_idx
             = row @ [bonus_token_ids ! seq_idx]
               @ replicate (max_spec_len - n) PLACEHOLDER_TOKEN_ID"
    if "\<forall>q<n. acc q" for acc repl
    using scan_row_all_accepted [where tok = tok and acc = acc and repl = repl,
        OF shape(1) init n _ stop] tok that
    by (simp add: row)
  have g: "row_at (max_spec_len + 1)
                (rejection_greedy_sample_kernel output_token_ids draft_token_ids target_argmax
                   bonus_token_ids is_greedy max_spec_len seq_idx) seq_idx
              = row @ [bonus_token_ids ! seq_idx]
                @ replicate (max_spec_len - n) PLACEHOLDER_TOKEN_ID"
    if "is_greedy ! seq_idx"
      "\<forall>q<n. draft_token_ids ! (seq_idx * max_spec_len + q)
                      = target_argmax ! (seq_idx * max_spec_len + q)"
    using that any [of "greedy_accepts draft_token_ids target_argmax max_spec_len seq_idx"]
    by (simp add: greedy_kernel_scan tok_def greedy_accepts_def)
  have r: "row_at (max_spec_len + 1)
                (rejection_random_sample_kernel output_token_ids draft_token_ids draft_probs
                   target_probs bonus_token_ids recovered_token_ids uniform_probs is_greedy
                   max_spec_len vocab_size IS_NGRAM seq_idx) seq_idx
              = row @ [bonus_token_ids ! seq_idx]
                @ replicate (max_spec_len - n) PLACEHOLDER_TOKEN_ID"
    if "\<not> is_greedy ! seq_idx"
      "\<forall>q<n. random_accepts draft_token_ids draft_probs target_probs uniform_probs
                      max_spec_len vocab_size IS_NGRAM seq_idx q"
    using that any [of "random_accepts draft_token_ids draft_probs target_probs uniform_probs
                      max_spec_len vocab_size IS_NGRAM seq_idx"]
    by (simp add: random_kernel_scan tok_def)
  show ?thesis
    unfolding row_def [symmetric] using g r parse by simp
qed

theorem no_rejection_row_witness:
  "row_at 3 (rejection_greedy_sample_kernel [- 1, - 1, - 1, - 1, - 1, - 1] [5, 7, - 1, - 1]
              [5, 7, 3, 3] [42, 43] [True, True] 2 1) 1 = [43, - 1, - 1]
   \<and> parse_row (row_at 3 (rejection_greedy_sample_kernel [- 1, - 1, - 1, - 1, - 1, - 1]
                 [5, 7, - 1, - 1] [5, 7, 3, 3] [42, 43] [True, True] 2 1) 1) = [43]
   \<and> row_at 3 (rejection_random_sample_kernel [- 1, - 1, - 1] [1, - 1] []
              [1 / 4, 3 / 4, 0, 0 :: real] [42] [0, 0] [1 / 2, 0] [False] 2 2 True 0) 0
       = [1, 42, - 1]
   \<and> parse_row (row_at 3 (rejection_random_sample_kernel [- 1, - 1, - 1] [1, - 1] []
              [1 / 4, 3 / 4, 0, 0 :: real] [42] [0, 0] [1 / 2, 0] [False] 2 2 True 0) 0)
       = [1, 42]"
proof -
  have i6: "[- 1, - 1, - 1, - 1, - 1, - 1] = replicate (2 * (2 + 1)) PLACEHOLDER_TOKEN_ID"
    by code_simp
  have i3: "[- 1, - 1, - 1] = replicate (1 * (2 + 1)) PLACEHOLDER_TOKEN_ID"
    by code_simp
  have g: "row_at 3 (rejection_greedy_sample_kernel [- 1, - 1, - 1, - 1, - 1, - 1]
              [5, 7, - 1, - 1] [5, 7, 3, 3] [42, 43] [True, True] 2 1) 1 = [43, - 1, - 1]
   \<and> parse_row (row_at 3 (rejection_greedy_sample_kernel [- 1, - 1, - 1, - 1, - 1, - 1]
                 [5, 7, - 1, - 1] [5, 7, 3, 3] [42, 43] [True, True] 2 1) 1) = [43]"
    using no_rejection_row [where seq_idx = 1 and batch_size = 2 and max_spec_len = 2
      and draft_token_ids = "[5, 7, - 1, - 1]" and bonus_token_ids = "[42, 43]"
      and is_greedy = "[True, True]" and n = 0
      and target_argmax = "[5, 7, 3, 3]" and target_probs = "[] :: real list", OF _ _ _ _ i6]
    by (simp add: PLACEHOLDER_TOKEN_ID_def numeral_2_eq_2 numeral_3_eq_3)
  have r: "row_at 3 (rejection_random_sample_kernel [- 1, - 1, - 1] [1, - 1] []
              [1 / 4, 3 / 4, 0, 0 :: real] [42] [0, 0] [1 / 2, 0] [False] 2 2 True 0) 0
       = [1, 42, - 1]
   \<and> parse_row (row_at 3 (rejection_random_sample_kernel [- 1, - 1, - 1] [1, - 1] []
              [1 / 4, 3 / 4, 0, 0 :: real] [42] [0, 0] [1 / 2, 0] [False] 2 2 True 0) 0)
       = [1, 42]"
    using no_rejection_row [where seq_idx = 0 and batch_size = 1 and max_spec_len = 2
      and draft_token_ids = "[1, - 1]" and bonus_token_ids = "[42]"
      and is_greedy = "[False]" and n = 1
      and target_probs = "[1 / 4, 3 / 4, 0, 0 :: real]" and draft_probs = "[]"
      and uniform_probs = "[1 / 2, 0]" and vocab_size = 2 and IS_NGRAM = True
      and recovered_token_ids = "[0, 0]", OF _ _ _ _ i3]
    by (simp add: PLACEHOLDER_TOKEN_ID_def random_accepts_def draft_prob_at_def dense_index_def
        row_at_def)
  from g r show ?thesis by blast
qed

subsection \<open>A launch over the rows\<close>

lemma row_of_index:
  "(i :: nat) * (m + 1) \<le> j \<Longrightarrow> j \<le> i * (m + 1) + m \<Longrightarrow> j div (m + 1) = i"
  by (intro div_nat_eqI) (simp_all add: ac_simps)

lemma rows_disjoint:
  assumes "(i :: nat) \<noteq> i'" and "q \<le> m"
  shows "\<not> (i * (m + 1) \<le> i' * (m + 1) + q \<and> i' * (m + 1) + q \<le> i * (m + 1) + m)"
proof
  assume a: "i * (m + 1) \<le> i' * (m + 1) + q \<and> i' * (m + 1) + q \<le> i * (m + 1) + m"
  then have "(i' * (m + 1) + q) div (m + 1) = i"
    by (intro row_of_index) simp_all
  moreover have "(i' * (m + 1) + q) div (m + 1) = i'"
    using \<open>q \<le> m\<close> by (intro row_of_index) simp_all
  ultimately show False using \<open>i \<noteq> i'\<close> by simp
qed

text \<open>
  A family of programs, one per row, each of which keeps the length of the memory, leaves
  the other rows alone and computes each cell of its row from that cell alone: after the
  launch, the row of program \<open>i\<close> is what program \<open>i\<close> makes of it.
\<close>

lemma launch_rows:
  fixes k :: "nat \<Rightarrow> int list \<Rightarrow> int list"
  assumes len: "\<And>i mem. length (k i mem) = length mem"
    and frame: "\<And>i mem j. j < length mem \<Longrightarrow>
                  \<not> (i * (m + 1) \<le> j \<and> j \<le> i * (m + 1) + m) \<Longrightarrow> k i mem ! j = mem ! j"
    and local: "\<And>i mem mem' j. j < length mem \<Longrightarrow> length mem' = length mem \<Longrightarrow>
                  mem ! j = mem' ! j \<Longrightarrow> k i mem ! j = k i mem' ! j"
    and "length mem = batch_size * (m + 1)" and "n \<le> batch_size"
    and "i < batch_size" and "q \<le> m"
  shows "length (fold k [0..<n] mem) = length mem
       \<and> fold k [0..<n] mem ! (i * (m + 1) + q)
           = (if i < n then k i mem ! (i * (m + 1) + q) else mem ! (i * (m + 1) + q))"
  using \<open>n \<le> batch_size\<close>
proof (induction n)
  case 0
  then show ?case by simp
next
  case (Suc n)
  let ?j = "i * (m + 1) + q"
  let ?F = "fold k [0..<n] mem"
  from Suc have IH: "length ?F = length mem"
    "?F ! ?j = (if i < n then k i mem ! ?j else mem ! ?j)"
    by simp_all
  have j: "?j < length mem"
    using row_index_in_range [OF \<open>i < batch_size\<close> \<open>q \<le> m\<close>] assms(4) by simp
  have step: "fold k [0..<Suc n] mem = k n ?F" by simp
  show ?case
  proof (cases "i = n")
    case True
    have "k n ?F ! ?j = k n mem ! ?j"
      using j IH True by (intro local) simp_all
    with True len IH show ?thesis unfolding step by simp
  next
    case False
    then have "\<not> (n * (m + 1) \<le> ?j \<and> ?j \<le> n * (m + 1) + m)"
      using rows_disjoint [of n i q m] \<open>q \<le> m\<close> by simp
    then have "k n ?F ! ?j = ?F ! ?j"
      using j IH by (intro frame) simp_all
    with False len IH show ?thesis unfolding step by auto
  qed
qed

lemma scan_row_frame:
  assumes "j < length mem" and "\<not> (base \<le> j \<and> j \<le> base + m)"
  shows "scan_row tok acc repl base m bonus mem ! j = mem ! j"
  using assms accepted_len_le [of tok acc m] by (auto simp: nth_scan_row)

lemma scan_row_local:
  assumes "j < length mem" and "length mem' = length mem" and "mem ! j = mem' ! j"
  shows "scan_row tok acc repl base m bonus mem ! j = scan_row tok acc repl base m bonus mem' ! j"
  using assms by (simp add: nth_scan_row)

lemma length_greedy_kernel [simp]:
  "length (rejection_greedy_sample_kernel mem draft_token_ids target_argmax bonus_token_ids
             is_greedy max_spec_len seq_idx) = length mem"
  by (simp add: greedy_kernel_scan)

lemma length_random_kernel [simp]:
  "length (rejection_random_sample_kernel mem draft_token_ids draft_probs target_probs
             bonus_token_ids recovered_token_ids uniform_probs is_greedy max_spec_len
             vocab_size IS_NGRAM seq_idx) = length mem"
  by (simp add: random_kernel_scan)

lemma greedy_kernel_frame:
  assumes "j < length mem"
    and "\<not> (seq_idx * (max_spec_len + 1) \<le> j \<and> j \<le> seq_idx * (max_spec_len + 1) + max_spec_len)"
  shows "rejection_greedy_sample_kernel mem draft_token_ids target_argmax bonus_token_ids
           is_greedy max_spec_len seq_idx ! j = mem ! j"
  using assms unfolding greedy_kernel_scan by (simp add: scan_row_frame)

lemma greedy_kernel_local:
  assumes "j < length mem" and "length mem' = length mem" and "mem ! j = mem' ! j"
  shows "rejection_greedy_sample_kernel mem draft_token_ids target_argmax bonus_token_ids
           is_greedy max_spec_len seq_idx ! j
         = rejection_greedy_sample_kernel mem' draft_token_ids target_argmax bonus_token_ids
           is_greedy max_spec_len seq_idx ! j"
  unfolding greedy_kernel_scan using assms scan_row_local [OF assms] by simp

lemma random_kernel_frame:
  assumes "j < length mem"
    and "\<not> (seq_idx * (max_spec_len + 1) \<le> j \<and> j \<le> seq_idx * (max_spec_len + 1) + max_spec_len)"
  shows "rejection_random_sample_kernel mem draft_token_ids draft_probs target_probs
           bonus_token_ids recovered_token_ids uniform_probs is_greedy max_spec_len
           vocab_size IS_NGRAM seq_idx ! j = mem ! j"
  using assms unfolding random_kernel_scan by (simp add: scan_row_frame)

lemma random_kernel_local:
  assumes "j < length mem" and "length mem' = length mem" and "mem ! j = mem' ! j"
  shows "rejection_random_sample_kernel mem draft_token_ids draft_probs target_probs
           bonus_token_ids recovered_token_ids uniform_probs is_greedy max_spec_len
           vocab_size IS_NGRAM seq_idx ! j
         = rejection_random_sample_kernel mem' draft_token_ids draft_probs target_probs
           bonus_token_ids recovered_token_ids uniform_probs is_greedy max_spec_len
           vocab_size IS_NGRAM seq_idx ! j"
  unfolding random_kernel_scan using assms scan_row_local [OF assms] by simp

lemma greedy_grid_rows:
  assumes "length mem = batch_size * (max_spec_len + 1)"
    and "seq_idx < batch_size" and "q \<le> max_spec_len"
  shows "length (rejection_greedy_sample_grid batch_size mem draft_token_ids target_argmax
                   bonus_token_ids is_greedy max_spec_len) = length mem
       \<and> rejection_greedy_sample_grid batch_size mem draft_token_ids target_argmax
           bonus_token_ids is_greedy max_spec_len ! (seq_idx * (max_spec_len + 1) + q)
         = rejection_greedy_sample_kernel mem draft_token_ids target_argmax bonus_token_ids
             is_greedy max_spec_len seq_idx ! (seq_idx * (max_spec_len + 1) + q)"
proof -
  let ?k = "\<lambda>seq_idx mem. rejection_greedy_sample_kernel mem draft_token_ids target_argmax
                            bonus_token_ids is_greedy max_spec_len seq_idx"
  have "length (fold ?k [0..<batch_size] mem) = length mem
       \<and> fold ?k [0..<batch_size] mem ! (seq_idx * (max_spec_len + 1) + q)
           = (if seq_idx < batch_size then ?k seq_idx mem ! (seq_idx * (max_spec_len + 1) + q)
              else mem ! (seq_idx * (max_spec_len + 1) + q))"
  proof (rule launch_rows [where k = ?k and batch_size = batch_size])
    show "length mem = batch_size * (max_spec_len + 1)" by fact
    show "seq_idx < batch_size" by fact
    show "q \<le> max_spec_len" by fact
    show "batch_size \<le> batch_size" by simp
    show "\<And>i mem. length (?k i mem) = length mem" by simp
    show "\<And>i mem j. j < length mem \<Longrightarrow>
            \<not> (i * (max_spec_len + 1) \<le> j \<and> j \<le> i * (max_spec_len + 1) + max_spec_len) \<Longrightarrow>
            ?k i mem ! j = mem ! j"
      by (rule greedy_kernel_frame)
    show "\<And>i mem mem' j. j < length mem \<Longrightarrow> length mem' = length mem \<Longrightarrow>
            mem ! j = mem' ! j \<Longrightarrow> ?k i mem ! j = ?k i mem' ! j"
      by (rule greedy_kernel_local)
  qed
  with assms(2) show ?thesis by (simp add: rejection_greedy_sample_grid_def)
qed

lemma random_grid_rows:
  assumes "length mem = batch_size * (max_spec_len + 1)"
    and "seq_idx < batch_size" and "q \<le> max_spec_len"
  shows "length (rejection_random_sample_grid batch_size mem draft_token_ids draft_probs
                   target_probs bonus_token_ids recovered_token_ids uniform_probs is_greedy
                   max_spec_len vocab_size IS_NGRAM) = length mem
       \<and> rejection_random_sample_grid batch_size mem draft_token_ids draft_probs
           target_probs bonus_token_ids recovered_token_ids uniform_probs is_greedy
           max_spec_len vocab_size IS_NGRAM ! (seq_idx * (max_spec_len + 1) + q)
         = rejection_random_sample_kernel mem draft_token_ids draft_probs target_probs
             bonus_token_ids recovered_token_ids uniform_probs is_greedy max_spec_len
             vocab_size IS_NGRAM seq_idx ! (seq_idx * (max_spec_len + 1) + q)"
proof -
  let ?k = "\<lambda>seq_idx mem. rejection_random_sample_kernel mem draft_token_ids draft_probs
                            target_probs bonus_token_ids recovered_token_ids uniform_probs
                            is_greedy max_spec_len vocab_size IS_NGRAM seq_idx"
  have "length (fold ?k [0..<batch_size] mem) = length mem
       \<and> fold ?k [0..<batch_size] mem ! (seq_idx * (max_spec_len + 1) + q)
           = (if seq_idx < batch_size then ?k seq_idx mem ! (seq_idx * (max_spec_len + 1) + q)
              else mem ! (seq_idx * (max_spec_len + 1) + q))"
  proof (rule launch_rows [where k = ?k and batch_size = batch_size])
    show "length mem = batch_size * (max_spec_len + 1)" by fact
    show "seq_idx < batch_size" by fact
    show "q \<le> max_spec_len" by fact
    show "batch_size \<le> batch_size" by simp
    show "\<And>i mem. length (?k i mem) = length mem" by simp
    show "\<And>i mem j. j < length mem \<Longrightarrow>
            \<not> (i * (max_spec_len + 1) \<le> j \<and> j \<le> i * (max_spec_len + 1) + max_spec_len) \<Longrightarrow>
            ?k i mem ! j = mem ! j"
      by (rule random_kernel_frame)
    show "\<And>i mem mem' j. j < length mem \<Longrightarrow> length mem' = length mem \<Longrightarrow>
            mem ! j = mem' ! j \<Longrightarrow> ?k i mem ! j = ?k i mem' ! j"
      by (rule random_kernel_local)
  qed
  with assms(2) show ?thesis by (simp add: rejection_random_sample_grid_def)
qed

subsection \<open>The rows of the matrix returned by \<open>rejection_sample\<close>\<close>

text \<open>
  Each cell of row \<open>seq_idx\<close> of the result is what the one kernel that owns the row
  makes of a placeholder-filled matrix, or the placeholder where the shortcut flags keep
  that kernel from being launched.
\<close>

lemma rejection_sample_cell:
  assumes "seq_idx < batch_size" and "q \<le> max_spec_len"
  shows "rejection_sample batch_size max_spec_len vocab_size draft_token_ids draft_probs
           target_probs bonus_token_ids md uniform_probs qs ! (seq_idx * (max_spec_len + 1) + q)
     = (if map (\<lambda>t. t = GREEDY_TEMPERATURE) (temperature md) ! seq_idx then
          (if all_random md then PLACEHOLDER_TOKEN_ID
           else rejection_greedy_sample_kernel
                  (replicate (batch_size * (max_spec_len + 1)) PLACEHOLDER_TOKEN_ID)
                  draft_token_ids
                  (argmax_last_dim (batch_size * max_spec_len) vocab_size target_probs)
                  bonus_token_ids (map (\<lambda>t. t = GREEDY_TEMPERATURE) (temperature md))
                  max_spec_len seq_idx ! (seq_idx * (max_spec_len + 1) + q))
        else
          (if \<not> all_random md \<and> all_greedy md then PLACEHOLDER_TOKEN_ID
           else rejection_random_sample_kernel
                  (replicate (batch_size * (max_spec_len + 1)) PLACEHOLDER_TOKEN_ID)
                  draft_token_ids (case draft_probs of None \<Rightarrow> [] | Some dp \<Rightarrow> dp)
                  target_probs bonus_token_ids
                  (sample_recovered_tokens batch_size max_spec_len vocab_size
                     (residual_probs batch_size max_spec_len vocab_size draft_token_ids
                        draft_probs target_probs) qs)
                  uniform_probs (map (\<lambda>t. t = GREEDY_TEMPERATURE) (temperature md))
                  max_spec_len vocab_size (draft_probs = None) seq_idx
                  ! (seq_idx * (max_spec_len + 1) + q)))"
proof -
  define init where "init = replicate (batch_size * (max_spec_len + 1)) PLACEHOLDER_TOKEN_ID"
  define is_greedy where "is_greedy = map (\<lambda>t. t = GREEDY_TEMPERATURE) (temperature md)"
  define ta where "ta = argmax_last_dim (batch_size * max_spec_len) vocab_size target_probs"
  define dp where "dp = (case draft_probs of None \<Rightarrow> [] | Some dp \<Rightarrow> dp)"
  define rec where "rec = sample_recovered_tokens batch_size max_spec_len vocab_size
                     (residual_probs batch_size max_spec_len vocab_size draft_token_ids
                        draft_probs target_probs) qs"
  define j where "j = seq_idx * (max_spec_len + 1) + q"
  define G where "G = rejection_greedy_sample_grid batch_size init draft_token_ids ta
                        bonus_token_ids is_greedy max_spec_len"
  have linit: "length init = batch_size * (max_spec_len + 1)" by (simp add: init_def)
  have jl: "j < length init"
    using row_index_in_range [OF assms] linit by (simp add: j_def)
  have initj: "init ! j = PLACEHOLDER_TOKEN_ID"
    using jl unfolding init_def by simp
  have G: "length G = length init"
    "G ! j = rejection_greedy_sample_kernel init draft_token_ids ta bonus_token_ids is_greedy
               max_spec_len seq_idx ! j"
    unfolding G_def j_def using greedy_grid_rows [OF linit assms] by simp_all
  have R: "rejection_random_sample_grid batch_size mem draft_token_ids dp target_probs
             bonus_token_ids rec uniform_probs is_greedy max_spec_len vocab_size
             (draft_probs = None) ! j
           = rejection_random_sample_kernel mem draft_token_ids dp target_probs
               bonus_token_ids rec uniform_probs is_greedy max_spec_len vocab_size
               (draft_probs = None) seq_idx ! j"
    if "length mem = batch_size * (max_spec_len + 1)" for mem
    unfolding j_def by (rule random_grid_rows [OF that assms, THEN conjunct2])
  have Rg: "rejection_random_sample_kernel mem draft_token_ids dp target_probs
               bonus_token_ids rec uniform_probs is_greedy max_spec_len vocab_size
               (draft_probs = None) seq_idx ! j = mem ! j"
    if "is_greedy ! seq_idx" for mem
    using that by (simp add: random_kernel_scan)
  have Gr: "G ! j = init ! j" if "\<not> is_greedy ! seq_idx"
    using that G(2) by (simp add: greedy_kernel_scan)
  have RG: "rejection_random_sample_kernel G draft_token_ids dp target_probs
               bonus_token_ids rec uniform_probs is_greedy max_spec_len vocab_size
               (draft_probs = None) seq_idx ! j
            = rejection_random_sample_kernel init draft_token_ids dp target_probs
               bonus_token_ids rec uniform_probs is_greedy max_spec_len vocab_size
               (draft_probs = None) seq_idx ! j"
    if "\<not> is_greedy ! seq_idx"
  proof (rule random_kernel_local)
    show "j < length G" using jl G(1) by simp
    show "length init = length G" using G(1) by simp
    show "G ! j = init ! j" using Gr that by simp
  qed
  have "rejection_sample batch_size max_spec_len vocab_size draft_token_ids draft_probs
           target_probs bonus_token_ids md uniform_probs qs ! j
     = (if is_greedy ! seq_idx then
          (if all_random md then PLACEHOLDER_TOKEN_ID
           else rejection_greedy_sample_kernel init draft_token_ids ta bonus_token_ids
                  is_greedy max_spec_len seq_idx ! j)
        else
          (if \<not> all_random md \<and> all_greedy md then PLACEHOLDER_TOKEN_ID
           else rejection_random_sample_kernel init draft_token_ids dp target_probs
                  bonus_token_ids rec uniform_probs is_greedy max_spec_len vocab_size
                  (draft_probs = None) seq_idx ! j))"
    unfolding rejection_sample_def Let_def init_def [symmetric] is_greedy_def [symmetric]
      ta_def [symmetric] dp_def [symmetric] rec_def [symmetric] G_def [symmetric]
    using G R [OF linit] R [of G] Rg [of init] Rg [of G] Gr RG linit initj
    by auto
  then show ?thesis
    unfolding init_def is_greedy_def ta_def dp_def rec_def j_def .
qed

lemma scan_row_contiguous:
  assumes "seq_idx < batch_size"
    and "mem = replicate (batch_size * (m + 1)) PLACEHOLDER_TOKEN_ID"
    and "p < q" and "q \<le> m"
    and "scan_row tok acc repl (seq_idx * (m + 1)) m bonus mem ! (seq_idx * (m + 1) + p)
           = PLACEHOLDER_TOKEN_ID"
  shows "scan_row tok acc repl (seq_idx * (m + 1)) m bonus mem ! (seq_idx * (m + 1) + q)
           = PLACEHOLDER_TOKEN_ID"
proof -
  define base where "base = seq_idx * (m + 1)"
  have inr: "base + c < length mem" if "c \<le> m" for c
    using row_index_in_range [OF assms(1) that] assms(2) by (simp add: base_def)
  have memc: "mem ! (base + c) = PLACEHOLDER_TOKEN_ID" if "c \<le> m" for c
    using inr [OF that] unfolding assms(2) by simp
  have "\<not> p < accepted_len tok acc m"
  proof
    assume lt: "p < accepted_len tok acc m"
    from accepted_len_run [OF this] have "tok p \<noteq> PLACEHOLDER_TOKEN_ID" by simp
    moreover have "scan_row tok acc repl base m bonus mem ! (base + p) = tok p"
      using lt inr [of p] assms(3,4) by (simp add: nth_scan_row)
    ultimately show False using assms(5) by (simp add: base_def)
  qed
  then have "accepted_len tok acc m < q" using assms(3) by simp
  then have "scan_row tok acc repl base m bonus mem ! (base + q) = mem ! (base + q)"
    using inr [OF assms(4)] by (simp add: nth_scan_row)
  with memc [OF assms(4)] show ?thesis by (simp add: base_def)
qed

text \<open>
  Claim C7. In every row of the matrix that \<open>rejection_sample\<close> returns, a placeholder at
  position \<open>p\<close> is followed by placeholders only.
\<close>

theorem output_rows_contiguous:
  assumes "seq_idx < batch_size" and "p < q" and "q \<le> max_spec_len"
    and "length draft_token_ids = batch_size * max_spec_len"
    and "length target_probs = batch_size * max_spec_len * vocab_size"
    and "length bonus_token_ids = batch_size"
    and "length (temperature md) = batch_size"
    and "rejection_sample batch_size max_spec_len vocab_size draft_token_ids draft_probs
           target_probs bonus_token_ids md uniform_probs qs ! (seq_idx * (max_spec_len + 1) + p)
         = PLACEHOLDER_TOKEN_ID"
  shows "rejection_sample batch_size max_spec_len vocab_size draft_token_ids draft_probs
           target_probs bonus_token_ids md uniform_probs qs ! (seq_idx * (max_spec_len + 1) + q)
         = PLACEHOLDER_TOKEN_ID"
proof -
  have p: "p \<le> max_spec_len" using assms(2,3) by simp
  note cp = rejection_sample_cell [OF assms(1) p]
  note cq = rejection_sample_cell [OF assms(1) assms(3)]
  note contig = scan_row_contiguous [OF assms(1) refl assms(2,3)]
  show ?thesis
    using assms(8) contig unfolding cp cq greedy_kernel_scan random_kernel_scan
    by (simp split: if_splits)
qed

theorem output_rows_contiguous_witness:
  "rejection_sample 2 2 2 [0, 1, 1, - 1] None [0, 1, 1, 0, 1 / 4, 3 / 4, 0, 0] [42, 43]
     \<lparr>temperature = [- 1, 1], all_greedy = False, all_random = False\<rparr>
     [1 / 2, 1 / 2, 1 / 2, 1 / 2] [1, 1, 1, 1] ! (0 * (2 + 1) + 1) = PLACEHOLDER_TOKEN_ID
   \<and> rejection_sample 2 2 2 [0, 1, 1, - 1] None [0, 1, 1, 0, 1 / 4, 3 / 4, 0, 0] [42, 43]
     \<lparr>temperature = [- 1, 1], all_greedy = False, all_random = False\<rparr>
     [1 / 2, 1 / 2, 1 / 2, 1 / 2] [1, 1, 1, 1] ! (0 * (2 + 1) + 2) = PLACEHOLDER_TOKEN_ID"
proof -
  have h: "rejection_sample 2 2 2 [0, 1, 1, - 1] None [0, 1, 1, 0, 1 / 4, 3 / 4, 0, 0] [42, 43]
     \<lparr>temperature = [- 1, 1], all_greedy = False, all_random = False\<rparr>
     [1 / 2, 1 / 2, 1 / 2, 1 / 2] [1, 1, 1, 1] ! (0 * (2 + 1) + 1) = PLACEHOLDER_TOKEN_ID"
    by code_simp
  have "rejection_sample 2 2 2 [0, 1, 1, - 1] None [0, 1, 1, 0, 1 / 4, 3 / 4, 0, 0] [42, 43]
     \<lparr>temperature = [- 1, 1], all_greedy = False, all_random = False\<rparr>
     [1 / 2, 1 / 2, 1 / 2, 1 / 2] [1, 1, 1, 1] ! (0 * (2 + 1) + 2) = PLACEHOLDER_TOKEN_ID"
    by (rule output_rows_contiguous [where p = 1, OF _ _ _ _ _ _ _ h]) simp_all
  with h show ?thesis by (rule conjI)
qed

subsection \<open>Packing and extracting\<close>

lemma row_at_concat:
  assumes "\<forall>r \<in> set rows. length r = n" and "i < length rows"
  shows "row_at n (concat rows) i = rows ! i"
  using assms
proof (induction rows arbitrary: i)
  case Nil
  then show ?case by simp
next
  case (Cons r rows)
  show ?case
  proof (cases i)
    case 0
    with Cons.prems show ?thesis by (simp add: row_at_def)
  next
    case (Suc i')
    with Cons.prems have "row_at n (concat rows) i' = rows ! i'"
      by (intro Cons.IH) simp_all
    with Suc Cons.prems show ?thesis by (simp add: row_at_def)
  qed
qed

lemma length_concat_rows:
  "\<forall>r \<in> set rows. length r = n \<Longrightarrow> length (concat rows) = length rows * n"
  by (induction rows) simp_all

lemma store_rows:
  assumes "length pre = k * m" and "\<forall>ts \<in> set rest. length ts \<le> m"
  shows "fold (\<lambda>(i, token_ids). store_slice (i * m) token_ids) (enumerate k rest)
           (pre @ replicate (length rest * m) PLACEHOLDER_TOKEN_ID)
         = pre @ concat (map (\<lambda>ts. ts @ replicate (m - length ts) PLACEHOLDER_TOKEN_ID) rest)"
  using assms
proof (induction rest arbitrary: k pre)
  case Nil
  then show ?case by simp
next
  case (Cons ts rest)
  let ?pad = "\<lambda>ts. ts @ replicate (m - length ts) PLACEHOLDER_TOKEN_ID"
  have ts: "length ts \<le> m" using Cons.prems by simp
  have "store_slice (k * m) ts (pre @ replicate (length (ts # rest) * m) PLACEHOLDER_TOKEN_ID)
        = (pre @ ?pad ts) @ replicate (length rest * m) PLACEHOLDER_TOKEN_ID"
    using Cons.prems(1) ts by (simp add: store_slice_def replicate_add [symmetric])
  moreover have "fold (\<lambda>(i, token_ids). store_slice (i * m) token_ids) (enumerate (Suc k) rest)
           ((pre @ ?pad ts) @ replicate (length rest * m) PLACEHOLDER_TOKEN_ID)
         = (pre @ ?pad ts) @ concat (map ?pad rest)"
    using Cons.prems ts by (intro Cons.IH) simp_all
  ultimately show ?case by simp
qed

lemma async_copy_packed:
  assumes "async_copy_to_device max_num_tokens buffer draft_token_ids = Inr (buffer', packed)"
  shows "draft_token_ids \<noteq> []
       \<and> length draft_token_ids * Max (set (map length draft_token_ids)) \<le> max_num_tokens
       \<and> packed = concat (map (\<lambda>ts. ts @ replicate (Max (set (map length draft_token_ids))
                                                   - length ts) PLACEHOLDER_TOKEN_ID)
                            draft_token_ids)"
proof -
  define m where "m = Max (set (map length draft_token_ids))"
  from assms have ne: "draft_token_ids \<noteq> []"
    and cap: "length draft_token_ids * m \<le> max_num_tokens"
    and packed: "packed = fold (\<lambda>(i, token_ids). store_slice (i * m) token_ids)
                   (enumerate 0 draft_token_ids)
                   (replicate (length draft_token_ids * m) PLACEHOLDER_TOKEN_ID)"
    by (auto simp: async_copy_to_device_def Let_def m_def split: if_splits)
  have le: "\<forall>ts \<in> set draft_token_ids. length ts \<le> m"
    unfolding m_def by (auto intro: Max_ge)
  have "packed = [] @ concat (map (\<lambda>ts. ts @ replicate (m - length ts) PLACEHOLDER_TOKEN_ID)
                            draft_token_ids)"
    unfolding packed using store_rows [of "[]" 0 m draft_token_ids] le by simp
  with ne cap show ?thesis by (simp add: m_def)
qed

lemma map2_nth:
  "length ys = length xs \<Longrightarrow>
   map (\<lambda>i. f (xs ! i) (ys ! i)) [0..<length xs] = map2 f xs ys"
  by (rule nth_equalityI) simp_all

lemma row_at_cong_nth:
  assumes "r < rows" and "length xs = rows * n" and "length ys = rows * n"
    and "\<And>c. c < n \<Longrightarrow> xs ! (r * n + c) = ys ! (r * n + c)"
  shows "row_at n xs r = row_at n ys r"
proof (rule nth_equalityI)
  show "length (row_at n xs r) = length (row_at n ys r)"
    using length_row_at [OF assms(1,2)] length_row_at [OF assms(1,3)] by simp
  fix c
  assume "c < length (row_at n xs r)"
  then have c: "c < n" using length_row_at [OF assms(1,2)] by simp
  show "row_at n xs r ! c = row_at n ys r ! c"
    using nth_row_at [OF assms(1,2) c] nth_row_at [OF assms(1,3) c] assms(4) [OF c] by simp
qed

text \<open>
  Claim C9. Let the materializer pack a ragged batch whose draft tokens and bonus tokens
  are tokens (none is the placeholder). Extracting the packed matrix gives the batch
  back. Let the greedy verifier run on the packed matrix with a target arg-max that
  equals the draft token at every position, from a placeholder-filled output: every row
  of its output is the draft tokens of the request, its bonus token, and placeholders
  (the all-accepted output), and extracting that output gives every draft list with its
  bonus token appended.
\<close>

theorem pack_extract_roundtrip:
  assumes pack: "async_copy_to_device max_num_tokens buffer draft_token_ids
                   = Inr (buffer', packed)"
    and tokens: "\<forall>ts \<in> set draft_token_ids. PLACEHOLDER_TOKEN_ID \<notin> set ts"
    and bonus: "PLACEHOLDER_TOKEN_ID \<notin> set bonus_token_ids"
    and lb: "length bonus_token_ids = length draft_token_ids"
    and B: "batch_size = length draft_token_ids"
    and M: "max_spec_len = Max (set (map length draft_token_ids))"
    and out: "output_token_ids =
                rejection_greedy_sample_grid batch_size
                  (replicate (batch_size * (max_spec_len + 1)) PLACEHOLDER_TOKEN_ID)
                  packed packed bonus_token_ids (replicate batch_size True) max_spec_len"
  shows "parse_output batch_size max_spec_len packed = draft_token_ids
       \<and> tolist batch_size (max_spec_len + 1) output_token_ids
           = map2 (\<lambda>ts b. ts @ [b] @ replicate (max_spec_len - length ts) PLACEHOLDER_TOKEN_ID)
               draft_token_ids bonus_token_ids
       \<and> parse_output batch_size (max_spec_len + 1) output_token_ids
           = map2 (\<lambda>ts b. ts @ [b]) draft_token_ids bonus_token_ids"
proof -
  let ?pad = "\<lambda>ts. ts @ replicate (max_spec_len - length ts) PLACEHOLDER_TOKEN_ID"
  define init where "init = replicate (batch_size * (max_spec_len + 1)) PLACEHOLDER_TOKEN_ID"
  have packed: "packed = concat (map ?pad draft_token_ids)"
    using async_copy_packed [OF pack] M by simp
  have le: "length ts \<le> max_spec_len" if "ts \<in> set draft_token_ids" for ts
    unfolding M using that by (auto intro: Max_ge)
  have padlen: "\<forall>r \<in> set (map ?pad draft_token_ids). length r = max_spec_len"
    using le by auto
  have lp: "length packed = batch_size * max_spec_len"
    unfolding packed using length_concat_rows [OF padlen] B by simp
  have row: "row_at max_spec_len packed i = ?pad (draft_token_ids ! i)" if "i < batch_size" for i
    unfolding packed using row_at_concat [OF padlen, of i] that B by simp
  have first: "parse_output batch_size max_spec_len packed = draft_token_ids"
  proof -
    have "parse_row (row_at max_spec_len packed i) = draft_token_ids ! i"
      if "i < batch_size" for i
      using row [OF that] tokens that B by (simp add: parse_row_tokens)
    then have "map (\<lambda>i. parse_row (row_at max_spec_len packed i)) [0..<batch_size]
               = map (\<lambda>i. draft_token_ids ! i) [0..<batch_size]"
      by simp
    then show ?thesis
      unfolding parse_output_def tolist_def B by (simp add: map_nth comp_def)
  qed
  have orow: "row_at (max_spec_len + 1) output_token_ids i
              = draft_token_ids ! i @ [bonus_token_ids ! i]
                @ replicate (max_spec_len - length (draft_token_ids ! i)) PLACEHOLDER_TOKEN_ID"
    if i: "i < batch_size" for i
  proof -
    define ts where "ts = draft_token_ids ! i"
    define K where "K = rejection_greedy_sample_kernel init packed packed bonus_token_ids
                          (replicate batch_size True) max_spec_len i"
    have tsin: "ts \<in> set draft_token_ids" using i B by (simp add: ts_def)
    have n: "length ts \<le> max_spec_len" using le [OF tsin] .
    have linit: "length init = batch_size * (max_spec_len + 1)" by (simp add: init_def)
    have lo: "length output_token_ids = batch_size * (max_spec_len + 1)"
      unfolding out init_def [symmetric]
      using greedy_grid_rows [OF linit i, of 0] linit by simp
    have lK: "length K = batch_size * (max_spec_len + 1)"
      unfolding K_def using linit by simp
    have "row_at (max_spec_len + 1) output_token_ids i = row_at (max_spec_len + 1) K i"
    proof (rule row_at_cong_nth [OF i lo lK])
      fix c
      assume "c < max_spec_len + 1"
      then have "c \<le> max_spec_len" by simp
      from greedy_grid_rows [OF linit i this]
      show "output_token_ids ! (i * (max_spec_len + 1) + c) = K ! (i * (max_spec_len + 1) + c)"
        unfolding out init_def [symmetric] K_def by simp
    qed
    also have "K = scan_row (draft_at packed max_spec_len i)
        (greedy_accepts packed packed max_spec_len i)
        (\<lambda>pos. packed ! (i * max_spec_len + pos))
        (i * (max_spec_len + 1)) max_spec_len (bonus_token_ids ! i) init"
      unfolding K_def greedy_kernel_scan using i by simp
    also have "row_at (max_spec_len + 1) \<dots> i
               = map (draft_at packed max_spec_len i) [0..<length ts] @ [bonus_token_ids ! i]
                 @ replicate (max_spec_len - length ts) PLACEHOLDER_TOKEN_ID"
    proof (rule scan_row_all_accepted [OF i _ n])
      show "init = replicate (batch_size * (max_spec_len + 1)) PLACEHOLDER_TOKEN_ID"
        by (simp add: init_def)
      have cell: "draft_at packed max_spec_len i c = ?pad ts ! c" if "c < max_spec_len" for c
        using nth_row_at [OF i lp that] row [OF i] by (simp add: draft_at_def ts_def)
      show "\<forall>q<length ts. draft_at packed max_spec_len i q \<noteq> PLACEHOLDER_TOKEN_ID
              \<and> greedy_accepts packed packed max_spec_len i q"
      proof (intro allI impI conjI)
        fix q
        assume q: "q < length ts"
        with n have "draft_at packed max_spec_len i q = ts ! q"
          using cell [of q] by (simp add: nth_append)
        moreover have "ts ! q \<in> set ts" using q by simp
        ultimately show "draft_at packed max_spec_len i q \<noteq> PLACEHOLDER_TOKEN_ID"
          using tokens tsin by auto
        show "greedy_accepts packed packed max_spec_len i q"
          by (simp add: greedy_accepts_def)
      qed
      show "length ts = max_spec_len
            \<or> draft_at packed max_spec_len i (length ts) = PLACEHOLDER_TOKEN_ID"
      proof (cases "length ts = max_spec_len")
        case True
        then show ?thesis by simp
      next
        case False
        with n have "length ts < max_spec_len" by simp
        from cell [OF this] this show ?thesis by (simp add: nth_append)
      qed
    qed
    also have "map (draft_at packed max_spec_len i) [0..<length ts] = ts"
      using map_draft_at [OF i lp n] row [OF i] by (simp add: ts_def)
    finally show ?thesis by (simp add: ts_def)
  qed
  have second: "tolist batch_size (max_spec_len + 1) output_token_ids
           = map2 (\<lambda>ts b. ts @ [b] @ replicate (max_spec_len - length ts) PLACEHOLDER_TOKEN_ID)
               draft_token_ids bonus_token_ids"
  proof -
    have "tolist batch_size (max_spec_len + 1) output_token_ids
          = map (\<lambda>i. draft_token_ids ! i @ [bonus_token_ids ! i]
                @ replicate (max_spec_len - length (draft_token_ids ! i)) PLACEHOLDER_TOKEN_ID)
              [0..<length draft_token_ids]"
      unfolding tolist_def using orow B by simp
    also have "\<dots> = map2 (\<lambda>ts b. ts @ [b]
                        @ replicate (max_spec_len - length ts) PLACEHOLDER_TOKEN_ID)
                      draft_token_ids bonus_token_ids"
      using lb by (rule map2_nth)
    finally show ?thesis .
  qed
  have third: "parse_output batch_size (max_spec_len + 1) output_token_ids
           = map2 (\<lambda>ts b. ts @ [b]) draft_token_ids bonus_token_ids"
  proof -
    have "parse_row (draft_token_ids ! i @ [bonus_token_ids ! i]
                @ replicate (max_spec_len - length (draft_token_ids ! i)) PLACEHOLDER_TOKEN_ID)
          = draft_token_ids ! i @ [bonus_token_ids ! i]" if "i < length draft_token_ids" for i
    proof (rule parse_row_tokens_bonus)
      show "PLACEHOLDER_TOKEN_ID \<notin> set (draft_token_ids ! i)"
        using tokens that by simp
      show "bonus_token_ids ! i \<noteq> PLACEHOLDER_TOKEN_ID"
        using bonus lb that by (metis nth_mem)
    qed
    then have "parse_output batch_size (max_spec_len + 1) output_token_ids
          = map (\<lambda>i. draft_token_ids ! i @ [bonus_token_ids ! i]) [0..<length draft_token_ids]"
      unfolding parse_output_def tolist_def using orow B by simp
    also have "\<dots> = map2 (\<lambda>ts b. ts @ [b]) draft_token_ids bonus_token_ids"
      using lb by (rule map2_nth)
    finally show ?thesis .
  qed
  from first second third show ?thesis by blast
qed

theorem pack_extract_roundtrip_witness:
  "async_copy_to_device 8 [0, 0, 0, 0, 0, 0, 0, 0] [[5, 7], [3]]
     = Inr ([5, 7, 3, - 1, 0, 0, 0, 0], [5, 7, 3, - 1])
   \<and> parse_output 2 2 [5, 7, 3, - 1] = [[5, 7], [3]]
   \<and> tolist 2 (2 + 1)
       (rejection_greedy_sample_grid 2 (replicate (2 * (2 + 1)) PLACEHOLDER_TOKEN_ID)
          [5, 7, 3, - 1] [5, 7, 3, - 1] [42, 43] (replicate 2 True) 2)
       = [[5, 7, 42], [3, 43, - 1]]
   \<and> parse_output 2 (2 + 1)
       (rejection_greedy_sample_grid 2 (replicate (2 * (2 + 1)) PLACEHOLDER_TOKEN_ID)
          [5, 7, 3, - 1] [5, 7, 3, - 1] [42, 43] (replicate 2 True) 2)
       = [[5, 7, 42], [3, 43]]"
proof -
  have h: "async_copy_to_device 8 [0, 0, 0, 0, 0, 0, 0, 0] [[5, 7], [3]]
     = Inr ([5, 7, 3, - 1, 0, 0, 0, 0], [5, 7, 3, - 1])"
    by code_simp
  have m: "(2 :: nat) = Max (set (map length [[5, 7], [3 :: int]]))"
    by simp
  have t: "\<forall>ts \<in> set [[5, 7], [3 :: int]]. PLACEHOLDER_TOKEN_ID \<notin> set ts"
    by (simp add: PLACEHOLDER_TOKEN_ID_def)
  have b: "PLACEHOLDER_TOKEN_ID \<notin> set [42, 43]"
    by (simp add: PLACEHOLDER_TOKEN_ID_def)
  have lb: "length [42, 43 :: int] = length [[5, 7], [3 :: int]]"
    by simp
  have bs: "(2 :: nat) = length [[5, 7], [3 :: int]]"
    by simp
  from pack_extract_roundtrip [OF h t b lb bs m refl] h show ?thesis
    by (simp add: PLACEHOLDER_TOKEN_ID_def)
qed

subsection \<open>The two layouts of the target probabilities\<close>

lemma nth_cumulative_lengths:
  "i < length ns \<Longrightarrow> cumulative_lengths ns ! i = sum_list (take (Suc i) ns)"
  by (simp add: cumulative_lengths_def)

lemma start_idx_of_cumulative:
  "i < length ns \<Longrightarrow> start_idx_of (cumulative_lengths ns) i = sum_list (take i ns)"
  by (cases i) (simp_all add: start_idx_of_def nth_cumulative_lengths)

lemma sum_take_le:
  "\<forall>n \<in> set ns. n \<le> m \<Longrightarrow> sum_list (take i ns) \<le> i * (m :: nat)"
proof (induction ns arbitrary: i)
  case Nil
  then show ?case by simp
next
  case (Cons n ns)
  show ?case
  proof (cases i)
    case 0
    then show ?thesis by simp
  next
    case (Suc i')
    from Cons.prems have "sum_list (take i' ns) \<le> i' * m" by (intro Cons.IH) simp
    moreover from Cons.prems have "n \<le> m" by simp
    ultimately show ?thesis using Suc by simp
  qed
qed

lemma sum_take_full_iff:
  assumes "\<forall>n \<in> set ns. n \<le> m" and "i \<le> length ns"
  shows "sum_list (take i ns) = i * m \<longleftrightarrow> (\<forall>j<i. ns ! j = m)"
  using assms(2)
proof (induction i)
  case 0
  then show ?case by simp
next
  case (Suc i)
  then have i: "i < length ns" by simp
  have le: "sum_list (take i ns) \<le> i * m" using assms(1) by (rule sum_take_le)
  have nm: "ns ! i \<le> m" using assms(1) i by simp
  have "sum_list (take (Suc i) ns) = sum_list (take i ns) + ns ! i"
    using i by (simp add: take_Suc_conv_app_nth)
  then have "sum_list (take (Suc i) ns) = Suc i * m
             \<longleftrightarrow> sum_list (take i ns) = i * m \<and> ns ! i = m"
    using le nm by auto
  also have "\<dots> \<longleftrightarrow> (\<forall>j<i. ns ! j = m) \<and> ns ! i = m"
    using Suc by simp
  also have "\<dots> \<longleftrightarrow> (\<forall>j<Suc i. ns ! j = m)"
    by (auto simp: less_Suc_eq)
  finally show ?case .
qed

lemma index_agree_iff:
  assumes "0 < vocab_size" and "v < vocab_size"
  shows "packed_index cu vocab_size i p v = dense_index m vocab_size i p v
         \<longleftrightarrow> start_idx_of cu i = i * m"
proof -
  have "packed_index cu vocab_size i p v = dense_index m vocab_size i p v
        \<longleftrightarrow> (start_idx_of cu i + p) * vocab_size = (i * m + p) * vocab_size"
    by (simp add: packed_index_def dense_index_def algebra_simps)
  also have "\<dots> \<longleftrightarrow> start_idx_of cu i + p = i * m + p"
    using assms(1) by simp
  finally show ?thesis by simp
qed

lemma layouts_agree_iff:
  assumes "\<forall>n \<in> set ns. n \<le> m" and "0 < vocab_size"
  shows "(\<forall>i<length ns. \<forall>p<ns ! i. \<forall>v<vocab_size.
            packed_index (cumulative_lengths ns) vocab_size i p v
              = dense_index m vocab_size i p v)
         \<longleftrightarrow> (\<forall>i<length ns. 0 < ns ! i \<longrightarrow> (\<forall>j<i. ns ! j = m))"
proof -
  have cell: "packed_index (cumulative_lengths ns) vocab_size i p v
                = dense_index m vocab_size i p v \<longleftrightarrow> (\<forall>j<i. ns ! j = m)"
    if "i < length ns" "v < vocab_size" for i p v
    using index_agree_iff [OF assms(2) that(2)] start_idx_of_cumulative [OF that(1)]
      sum_take_full_iff [OF assms(1), of i] that(1)
    by simp
  show ?thesis
  proof
    assume L: "\<forall>i<length ns. \<forall>p<ns ! i. \<forall>v<vocab_size.
            packed_index (cumulative_lengths ns) vocab_size i p v
              = dense_index m vocab_size i p v"
    show "\<forall>i<length ns. 0 < ns ! i \<longrightarrow> (\<forall>j<i. ns ! j = m)"
    proof (rule allI, rule impI, rule impI)
      fix i
      assume i: "i < length ns" and pos: "0 < ns ! i"
      with L assms(2) have "packed_index (cumulative_lengths ns) vocab_size i 0 0
              = dense_index m vocab_size i 0 0"
        by blast
      with cell [OF i assms(2)] show "\<forall>j<i. ns ! j = m" by simp
    qed
  next
    assume R: "\<forall>i<length ns. 0 < ns ! i \<longrightarrow> (\<forall>j<i. ns ! j = m)"
    show "\<forall>i<length ns. \<forall>p<ns ! i. \<forall>v<vocab_size.
            packed_index (cumulative_lengths ns) vocab_size i p v
              = dense_index m vocab_size i p v"
    proof (intro allI impI)
      fix i p v
      assume i: "i < length ns" and p: "p < ns ! i" and v: "v < vocab_size"
      from p have "0 < ns ! i" by simp
      with R i have "\<forall>j<i. ns ! j = m" by blast
      with cell [OF i v] show "packed_index (cumulative_lengths ns) vocab_size i p v
              = dense_index m vocab_size i p v"
        by simp
    qed
  qed
qed

text \<open>
  Claim C10, as amended. \<open>compute_probs\<close> writes the row of request \<open>i\<close>, position \<open>p\<close>
  at the packed address; the residual construction and the random verifier read it at
  the dense address. For a batch with draft lengths \<open>num_draft_tokens\<close>, none above
  \<open>max_spec_len\<close>, and the cumulative table of these lengths, the two addresses are the
  same for every request, every position below its draft length and every vocabulary
  entry if and only if every request that comes before a request with at least one draft
  token has \<open>max_spec_len\<close> draft tokens.
\<close>

theorem layouts_agree:
  assumes "cu_num_draft_tokens = cumulative_lengths num_draft_tokens"
    and "\<forall>n \<in> set num_draft_tokens. n \<le> max_spec_len" and "0 < vocab_size"
  shows "(\<forall>i<length num_draft_tokens. \<forall>p<num_draft_tokens ! i. \<forall>v<vocab_size.
            packed_index cu_num_draft_tokens vocab_size i p v
              = dense_index max_spec_len vocab_size i p v)
         \<longleftrightarrow> (\<forall>i<length num_draft_tokens. 0 < num_draft_tokens ! i
                \<longrightarrow> (\<forall>j<i. num_draft_tokens ! j = max_spec_len))"
  unfolding assms(1) using assms(2,3) by (rule layouts_agree_iff)

theorem layouts_agree_witness:
  "\<exists>i p v. i < length [1, 2 :: nat] \<and> p < [1, 2] ! i \<and> v < (3 :: nat)
     \<and> packed_index (cumulative_lengths [1, 2]) 3 i p v \<noteq> dense_index 2 3 i p v"
proof -
  have "\<not> (\<forall>i<length [1, 2 :: nat]. 0 < [1, 2 :: nat] ! i \<longrightarrow> (\<forall>j<i. [1, 2 :: nat] ! j = 2))"
  proof
    assume "\<forall>i<length [1, 2 :: nat]. 0 < [1, 2 :: nat] ! i \<longrightarrow> (\<forall>j<i. [1, 2 :: nat] ! j = 2)"
    then have "\<forall>j<1. [1, 2 :: nat] ! j = 2" by (elim allE [of _ 1]) simp
    then show False by (elim allE [of _ 0]) simp
  qed
  with layouts_agree [of "cumulative_lengths [1, 2]" "[1, 2]" 2 3] show ?thesis
    by auto
qed

text \<open>
  Claim C10 as it was stated fails: in the batch with draft lengths 2 and 1 (so
  \<open>max_spec_len = 2\<close>) the second request has fewer draft tokens, and the two addresses
  agree for every request and every position below its draft length.
\<close>

theorem layouts_agree_counterexample:
  "Max (set [2, 1 :: nat]) = 2
   \<and> (\<exists>i. i < length [2, 1 :: nat] \<and> [2, 1 :: nat] ! i < 2)
   \<and> \<not> (\<exists>i p v. i < length [2, 1 :: nat] \<and> p < [2, 1] ! i \<and> v < (3 :: nat)
          \<and> packed_index (cumulative_lengths [2, 1]) 3 i p v \<noteq> dense_index 2 3 i p v)"
proof -
  have "\<forall>i<length [2, 1 :: nat]. 0 < [2, 1 :: nat] ! i \<longrightarrow> (\<forall>j<i. [2, 1 :: nat] ! j = 2)"
    by (auto simp: less_Suc_eq numeral_2_eq_2)
  with layouts_agree_iff [of "[2, 1]" 2 3]
  have "\<forall>i<length [2, 1 :: nat]. \<forall>p<[2, 1] ! i. \<forall>v<3.
            packed_index (cumulative_lengths [2, 1]) 3 i p v = dense_index 2 3 i p v"
    by simp
  moreover have "\<exists>i. i < length [2, 1 :: nat] \<and> [2, 1 :: nat] ! i < 2"
    by (intro exI [of _ 1]) simp
  ultimately show ?thesis by auto
qed

subsection \<open>The residual distribution\<close>

lemma sum_list_zero_entry:
  fixes xs :: "real list"
  shows "i < length xs \<Longrightarrow> sum_list (xs[i := 0]) = sum_list xs - xs ! i"
proof (induction xs arbitrary: i)
  case Nil
  then show ?case by simp
next
  case (Cons x xs)
  then show ?case by (cases i) simp_all
qed

lemma sum_list_positive:
  fixes xs :: "real list"
  shows "xs \<noteq> [] \<Longrightarrow> \<forall>x \<in> set xs. 0 < x \<Longrightarrow> 0 < sum_list xs"
proof (induction xs)
  case Nil
  then show ?case by simp
next
  case (Cons x xs)
  show ?case
  proof (cases "xs = []")
    case True
    with Cons.prems show ?thesis by simp
  next
    case False
    with Cons have "0 < sum_list xs" by simp
    with Cons.prems show ?thesis by simp
  qed
qed

lemma sum_list_normalize_row:
  "sum_list row \<noteq> 0 \<Longrightarrow> sum_list (normalize_row row) = 1"
proof -
  assume nz: "sum_list row \<noteq> 0"
  have "sum_list (map (\<lambda>x. x * inverse (sum_list row)) row) = sum_list row * inverse (sum_list row)"
    using sum_list_mult_const [of "\<lambda>x. x" "inverse (sum_list row)" row] by simp
  with nz show ?thesis by (simp add: normalize_row_def divide_inverse)
qed

lemma FLOAT32_TINY_positive: "0 < FLOAT32_TINY"
  by (simp add: FLOAT32_TINY_def)

lemma nth_residual_probs:
  "r < batch_size * max_spec_len \<Longrightarrow>
   residual_probs batch_size max_spec_len vocab_size draft_token_ids draft_probs target_probs ! r
     = normalize_row (residual_row vocab_size draft_token_ids draft_probs target_probs r)"
  by (simp add: residual_probs_def)

lemma residual_row_ngram_sum:
  assumes "r < rows" and "length target_probs = rows * vocab_size"
    and "nat (safe_draft_token_id (draft_token_ids ! r)) < vocab_size"
  shows "sum_list (residual_row vocab_size draft_token_ids None target_probs r)
         = sum_list (row_at vocab_size target_probs r)
           - row_at vocab_size target_probs r ! nat (safe_draft_token_id (draft_token_ids ! r))"
  using assms length_row_at [OF assms(1,2)]
  by (simp add: residual_row_def sum_list_zero_entry)

lemma residual_row_clamped:
  assumes "r < rows" and "length target_probs = rows * vocab_size"
    and "length dp = rows * vocab_size" and "0 < vocab_size"
  shows "(\<forall>v<vocab_size. residual_row vocab_size draft_token_ids (Some dp) target_probs r ! v
            = max (target_probs ! (r * vocab_size + v) - dp ! (r * vocab_size + v)) FLOAT32_TINY)
       \<and> length (residual_row vocab_size draft_token_ids (Some dp) target_probs r) = vocab_size
       \<and> 0 < sum_list (residual_row vocab_size draft_token_ids (Some dp) target_probs r)"
proof -
  let ?row = "residual_row vocab_size draft_token_ids (Some dp) target_probs r"
  have lt: "length (row_at vocab_size target_probs r) = vocab_size"
    and ld: "length (row_at vocab_size dp r) = vocab_size"
    using length_row_at [OF assms(1,2)] length_row_at [OF assms(1,3)] by simp_all
  have len: "length ?row = vocab_size"
    using lt ld by (simp add: residual_row_def)
  have cell: "?row ! v
            = max (target_probs ! (r * vocab_size + v) - dp ! (r * vocab_size + v)) FLOAT32_TINY"
    if "v < vocab_size" for v
    using that lt ld nth_row_at [OF assms(1,2) that] nth_row_at [OF assms(1,3) that]
    by (simp add: residual_row_def)
  have "\<forall>x \<in> set ?row. 0 < x"
  proof
    fix x
    assume "x \<in> set ?row"
    then obtain v where "v < vocab_size" "x = ?row ! v"
      using len by (auto simp: in_set_conv_nth)
    with cell [of v] FLOAT32_TINY_positive show "0 < x" by simp
  qed
  moreover have "?row \<noteq> []" using len assms(4) by auto
  ultimately have "0 < sum_list ?row" by (intro sum_list_positive)
  with cell len show ?thesis by simp
qed

text \<open>
  Claim C4, as amended. For a row \<open>r\<close> of the dense layout whose draft token is the
  placeholder or a vocabulary index: in n-gram mode the residual row is the target row
  with a zero at the index of the draft token (index 0 for the placeholder), and the
  normalising sum is the sum of the target row minus the target mass at that index;
  otherwise every entry is \<open>max (target - draft) tiny\<close> and the normalising sum is
  positive. In both modes, where the normalising sum is not zero the row of
  \<open>residual_probs\<close> sums to 1 (over the real numbers).
\<close>

theorem residual_rows:
  assumes "r < batch_size * max_spec_len"
    and "length target_probs = batch_size * max_spec_len * vocab_size"
    and "length draft_token_ids = batch_size * max_spec_len"
    and "0 < vocab_size"
    and "draft_token_ids ! r = PLACEHOLDER_TOKEN_ID
         \<or> 0 \<le> draft_token_ids ! r \<and> draft_token_ids ! r < int vocab_size"
  shows "(residual_row vocab_size draft_token_ids None target_probs r
            = (row_at vocab_size target_probs r)
                [nat (if draft_token_ids ! r = PLACEHOLDER_TOKEN_ID then 0
                      else draft_token_ids ! r) := 0]
          \<and> sum_list (residual_row vocab_size draft_token_ids None target_probs r)
            = sum_list (row_at vocab_size target_probs r)
              - row_at vocab_size target_probs r
                  ! nat (if draft_token_ids ! r = PLACEHOLDER_TOKEN_ID then 0
                         else draft_token_ids ! r))
       \<and> (\<forall>dp. length dp = batch_size * max_spec_len * vocab_size \<longrightarrow>
             (\<forall>v<vocab_size.
                residual_row vocab_size draft_token_ids (Some dp) target_probs r ! v
                  = max (target_probs ! (r * vocab_size + v) - dp ! (r * vocab_size + v))
                      FLOAT32_TINY)
             \<and> 0 < sum_list (residual_row vocab_size draft_token_ids (Some dp) target_probs r))
       \<and> (sum_list (residual_row vocab_size draft_token_ids draft_probs target_probs r) \<noteq> 0
            \<longrightarrow> sum_list (residual_probs batch_size max_spec_len vocab_size draft_token_ids
                            draft_probs target_probs ! r) = 1)"
proof (intro conjI allI impI)
  show "residual_row vocab_size draft_token_ids None target_probs r
            = (row_at vocab_size target_probs r)
                [nat (if draft_token_ids ! r = PLACEHOLDER_TOKEN_ID then 0
                      else draft_token_ids ! r) := 0]"
    by (simp add: residual_row_def safe_draft_token_id_def)
  have "nat (safe_draft_token_id (draft_token_ids ! r)) < vocab_size"
    using assms(4,5) by (auto simp: safe_draft_token_id_def)
  from residual_row_ngram_sum [OF assms(1,2) this]
  show "sum_list (residual_row vocab_size draft_token_ids None target_probs r)
            = sum_list (row_at vocab_size target_probs r)
              - row_at vocab_size target_probs r
                  ! nat (if draft_token_ids ! r = PLACEHOLDER_TOKEN_ID then 0
                         else draft_token_ids ! r)"
    by (simp add: safe_draft_token_id_def)
next
  fix dp :: "real list" and v
  assume dp: "length dp = batch_size * max_spec_len * vocab_size"
  note clamped = residual_row_clamped [OF assms(1,2) dp assms(4), of draft_token_ids]
  show "0 < sum_list (residual_row vocab_size draft_token_ids (Some dp) target_probs r)"
    using clamped by simp
  assume "v < vocab_size"
  then show "residual_row vocab_size draft_token_ids (Some dp) target_probs r ! v
                  = max (target_probs ! (r * vocab_size + v) - dp ! (r * vocab_size + v))
                      FLOAT32_TINY"
    using clamped by simp
next
  assume "sum_list (residual_row vocab_size draft_token_ids draft_probs target_probs r) \<noteq> 0"
  then show "sum_list (residual_probs batch_size max_spec_len vocab_size draft_token_ids
                            draft_probs target_probs ! r) = 1"
    using assms(1) by (simp add: nth_residual_probs sum_list_normalize_row)
qed

theorem residual_rows_witness:
  "residual_row 2 [1] None [1 / 4, 3 / 4] 0 = [1 / 4, 0]
   \<and> sum_list (residual_row 2 [1] None [1 / 4, 3 / 4] 0) = 1 / 4
   \<and> sum_list (residual_probs 1 1 2 [1] None [1 / 4, 3 / 4] ! 0) = 1
   \<and> residual_row 2 [1] (Some [1 / 2, 1 / 2]) [1 / 4, 3 / 4] 0 ! 0 = FLOAT32_TINY
   \<and> residual_row 2 [1] (Some [1 / 2, 1 / 2]) [1 / 4, 3 / 4] 0 ! 1 = 1 / 4
   \<and> 0 < sum_list (residual_row 2 [1] (Some [1 / 2, 1 / 2]) [1 / 4, 3 / 4] 0)"
proof -
  have tiny: "FLOAT32_TINY \<le> 1 / 4" "- (1 / 4) \<le> FLOAT32_TINY"
    by (simp_all add: FLOAT32_TINY_def)
  have v: "\<And>v. v < (2 :: nat) \<longleftrightarrow> v = 0 \<or> v = 1" by auto
  from residual_rows [where r = 0 and batch_size = 1 and max_spec_len = 1 and vocab_size = 2
      and target_probs = "[1 / 4, 3 / 4]" and draft_token_ids = "[1]" and draft_probs = None]
  show ?thesis
    using tiny
    by (simp add: PLACEHOLDER_TOKEN_ID_def row_at_def v max_def all_conj_distrib
        length_Suc_conv_rev ex_simps del: length_0_conv)
qed

text \<open>
  Claim C4 as it was stated fails in n-gram mode: the target row \<open>[1, 0]\<close> is a
  distribution and the draft token is index 0 of the vocabulary, yet the residual row
  is \<open>[0, 0]\<close> and the normalising sum is exactly zero.
\<close>

theorem residual_rows_counterexample:
  "sum_list (row_at 2 [1, 0 :: real] 0) = 1
   \<and> residual_row 2 [0] None [1, 0] 0 = [0, 0]
   \<and> sum_list (residual_row 2 [0] None [1, 0] 0) = 0"
  by (simp add: residual_row_def row_at_def safe_draft_token_id_def PLACEHOLDER_TOKEN_ID_def)

text \<open>
  Where the normalising sum of an n-gram row is zero although the target row sums to 1,
  the target puts all its mass on the draft token, and the random verifier accepts that
  token for every uniform draw that is at most 1: the row is not read.
\<close>

lemma ngram_zero_sum_accepted:
  assumes "seq_idx < batch_size" and "pos < max_spec_len"
    and "length target_probs = batch_size * max_spec_len * vocab_size"
    and "0 \<le> draft_token_ids ! (seq_idx * max_spec_len + pos)"
    and "draft_token_ids ! (seq_idx * max_spec_len + pos) < int vocab_size"
    and "sum_list (row_at vocab_size target_probs (seq_idx * max_spec_len + pos)) = 1"
    and "sum_list (residual_row vocab_size draft_token_ids None target_probs
                     (seq_idx * max_spec_len + pos)) = 0"
    and "uniform_probs ! (seq_idx * max_spec_len + pos) \<le> 1"
  shows "random_accepts draft_token_ids [] target_probs uniform_probs max_spec_len vocab_size
           True seq_idx pos"
proof -
  define r where "r = seq_idx * max_spec_len + pos"
  define t where "t = nat (draft_token_ids ! r)"
  have "Suc seq_idx * max_spec_len \<le> batch_size * max_spec_len"
    using assms(1) by (intro mult_le_mono1) simp
  with assms(2) have r: "r < batch_size * max_spec_len" by (simp add: r_def)
  have t: "t < vocab_size" using assms(4,5) by (simp add: t_def r_def)
  have ph: "draft_token_ids ! r \<noteq> PLACEHOLDER_TOKEN_ID"
    using assms(4) by (simp add: r_def PLACEHOLDER_TOKEN_ID_def)
  have safe: "nat (safe_draft_token_id (draft_token_ids ! r)) = t"
    using ph by (simp add: safe_draft_token_id_def t_def)
  from residual_row_ngram_sum [OF r assms(3), of draft_token_ids] safe t
  have "sum_list (residual_row vocab_size draft_token_ids None target_probs r)
        = sum_list (row_at vocab_size target_probs r) - row_at vocab_size target_probs r ! t"
    by simp
  with assms(6,7) have "row_at vocab_size target_probs r ! t = 1" by (simp add: r_def)
  moreover have "row_at vocab_size target_probs r ! t = target_probs ! (r * vocab_size + t)"
    using r assms(3) t by (rule nth_row_at)
  moreover have "dense_index max_spec_len vocab_size seq_idx pos t = r * vocab_size + t"
    by (simp add: dense_index_def r_def algebra_simps)
  ultimately show ?thesis
    using assms(8) by (simp add: random_accepts_def draft_prob_at_def r_def t_def)
qed

subsection \<open>The recovered tokens\<close>

lemma nth_sample_recovered_tokens:
  assumes "seq_idx < batch_size" and "p < max_spec_len"
  shows "sample_recovered_tokens batch_size max_spec_len vocab_size probs qs
           ! (seq_idx * max_spec_len + p)
         = int (argmax (map2 (\<lambda>x e. x / e) (probs ! (seq_idx * max_spec_len + p))
                          (row_at vocab_size qs seq_idx)))"
proof -
  have "Suc seq_idx * max_spec_len \<le> batch_size * max_spec_len"
    using assms(1) by (intro mult_le_mono1) simp
  with assms(2) have "seq_idx * max_spec_len + p < batch_size * max_spec_len" by simp
  moreover have "(seq_idx * max_spec_len + p) div max_spec_len = seq_idx"
    using assms(2) by simp
  ultimately show ?thesis by (simp add: sample_recovered_tokens_def)
qed

text \<open>
  Claim C5, as amended. The exponential draws \<open>qs\<close> have one row per request, and
  that row is used at every position of the request; a recovered token is computed for
  every request and position, as the arg-max of the residual row of that position divided
  by the request's draws. In a random row whose first rejection is at position \<open>p\<close>, the
  token written at \<open>p\<close> is the recovered token of position \<open>p\<close>.
\<close>

theorem recovered_token_of_position:
  assumes "seq_idx < batch_size" and "p < max_spec_len"
    and "length (temperature md) = batch_size"
    and "length draft_token_ids = batch_size * max_spec_len"
    and "length target_probs = batch_size * max_spec_len * vocab_size"
    and "length qs = batch_size * vocab_size"
    and "length uniform_probs = batch_size * max_spec_len"
    and random: "temperature md ! seq_idx \<noteq> GREEDY_TEMPERATURE"
    and path: "all_random md \<or> \<not> all_greedy md"
    and run: "\<forall>q<p. draft_token_ids ! (seq_idx * max_spec_len + q) \<noteq> PLACEHOLDER_TOKEN_ID
                \<and> random_accepts draft_token_ids
                    (case draft_probs of None \<Rightarrow> [] | Some dp \<Rightarrow> dp) target_probs uniform_probs
                    max_spec_len vocab_size (draft_probs = None) seq_idx q"
    and rej: "draft_token_ids ! (seq_idx * max_spec_len + p) \<noteq> PLACEHOLDER_TOKEN_ID"
      "\<not> random_accepts draft_token_ids
           (case draft_probs of None \<Rightarrow> [] | Some dp \<Rightarrow> dp) target_probs uniform_probs
           max_spec_len vocab_size (draft_probs = None) seq_idx p"
  shows "rejection_sample batch_size max_spec_len vocab_size draft_token_ids draft_probs
           target_probs bonus_token_ids md uniform_probs qs ! (seq_idx * (max_spec_len + 1) + p)
         = int (argmax (map2 (\<lambda>x e. x / e)
                          (residual_probs batch_size max_spec_len vocab_size draft_token_ids
                             draft_probs target_probs ! (seq_idx * max_spec_len + p))
                          (row_at vocab_size qs seq_idx)))"
proof -
  define init where "init = replicate (batch_size * (max_spec_len + 1)) PLACEHOLDER_TOKEN_ID"
  define probs where "probs = residual_probs batch_size max_spec_len vocab_size draft_token_ids
                                draft_probs target_probs"
  define rec where "rec = sample_recovered_tokens batch_size max_spec_len vocab_size probs qs"
  define tok where "tok = draft_at draft_token_ids max_spec_len seq_idx"
  define acc where "acc = random_accepts draft_token_ids
                    (case draft_probs of None \<Rightarrow> [] | Some dp \<Rightarrow> dp) target_probs uniform_probs
                    max_spec_len vocab_size (draft_probs = None) seq_idx"
  have ng: "\<not> map (\<lambda>t. t = GREEDY_TEMPERATURE) (temperature md) ! seq_idx"
    using random assms(1,3) by simp
  have path': "(\<not> all_random md \<and> all_greedy md) = False"
    using path by blast
  have ple: "p \<le> max_spec_len" using assms(2) by simp
  have inr: "seq_idx * (max_spec_len + 1) + max_spec_len < length init"
    using row_index_in_range [OF assms(1), of max_spec_len max_spec_len]
    by (simp add: init_def)
  have run': "\<forall>q<p. tok q \<noteq> PLACEHOLDER_TOKEN_ID \<and> acc q"
    using run unfolding tok_def acc_def draft_at_def by blast
  have rej': "p < max_spec_len \<and> tok p \<noteq> PLACEHOLDER_TOKEN_ID \<and> \<not> acc p"
    using rej assms(2) unfolding tok_def acc_def draft_at_def by blast
  have "rejection_sample batch_size max_spec_len vocab_size draft_token_ids draft_probs
           target_probs bonus_token_ids md uniform_probs qs ! (seq_idx * (max_spec_len + 1) + p)
        = scan_row tok acc (\<lambda>pos. rec ! (seq_idx * max_spec_len + pos))
            (seq_idx * (max_spec_len + 1)) max_spec_len (bonus_token_ids ! seq_idx) init
            ! (seq_idx * (max_spec_len + 1) + p)"
    unfolding rejection_sample_cell [OF assms(1) ple] random_kernel_scan
    using ng by (simp add: path' init_def rec_def probs_def tok_def acc_def)
  also have "\<dots> = rec ! (seq_idx * max_spec_len + p)"
    using scan_row_first_failure [OF inr ple run', of "\<lambda>pos. rec ! (seq_idx * max_spec_len + pos)"
        "bonus_token_ids ! seq_idx"] rej'
    by simp
  also have "\<dots> = int (argmax (map2 (\<lambda>x e. x / e) (probs ! (seq_idx * max_spec_len + p))
                          (row_at vocab_size qs seq_idx)))"
    unfolding rec_def using assms(1,2) by (rule nth_sample_recovered_tokens)
  finally show ?thesis unfolding probs_def .
qed

theorem recovered_token_of_position_witness:
  "rejection_sample 1 2 2 [0, 1] None [1 / 2, 1 / 2, 1 / 2, 1 / 2] [42]
      \<lparr>temperature = [1], all_greedy = False, all_random = True\<rparr> [1 / 4, 3 / 4] [1, 1]
      ! (0 * (2 + 1) + 1)
    = int (argmax (map2 (\<lambda>x e. x / e)
             (residual_probs 1 2 2 [0, 1] None [1 / 2, 1 / 2, 1 / 2, 1 / 2] ! (0 * 2 + 1))
             (row_at 2 [1, 1] 0)))
   \<and> int (argmax (map2 (\<lambda>x e. x / e)
             (residual_probs 1 2 2 [0, 1] None [1 / 2, 1 / 2, 1 / 2, 1 / 2] ! (0 * 2 + 1))
             (row_at 2 [1, 1 :: real] 0))) = 0"
proof -
  have run: "\<forall>q<1. [0, 1 :: int] ! (0 * 2 + q) \<noteq> PLACEHOLDER_TOKEN_ID
                \<and> random_accepts [0, 1]
                    (case None of None \<Rightarrow> [] | Some dp \<Rightarrow> dp) [1 / 2, 1 / 2, 1 / 2, 1 / 2 :: real]
                    [1 / 4, 3 / 4] 2 2 (None = (None :: real list option)) 0 q"
    by (simp add: PLACEHOLDER_TOKEN_ID_def random_accepts_def draft_prob_at_def dense_index_def)
  have rej: "[0, 1 :: int] ! (0 * 2 + 1) \<noteq> PLACEHOLDER_TOKEN_ID"
    "\<not> random_accepts [0, 1]
           (case None of None \<Rightarrow> [] | Some dp \<Rightarrow> dp) [1 / 2, 1 / 2, 1 / 2, 1 / 2 :: real]
           [1 / 4, 3 / 4] 2 2 (None = (None :: real list option)) 0 1"
    by (simp_all add: PLACEHOLDER_TOKEN_ID_def random_accepts_def draft_prob_at_def
        dense_index_def)
  have "rejection_sample 1 2 2 [0, 1] None [1 / 2, 1 / 2, 1 / 2, 1 / 2] [42]
      \<lparr>temperature = [1], all_greedy = False, all_random = True\<rparr> [1 / 4, 3 / 4] [1, 1]
      ! (0 * (2 + 1) + 1)
    = int (argmax (map2 (\<lambda>x e. x / e)
             (residual_probs 1 2 2 [0, 1] None [1 / 2, 1 / 2, 1 / 2, 1 / 2] ! (0 * 2 + 1))
             (row_at 2 [1, 1] 0)))"
    by (rule recovered_token_of_position [OF _ _ _ _ _ _ _ _ _ run rej])
      (simp_all add: GREEDY_TEMPERATURE_def)
  moreover have "int (argmax (map2 (\<lambda>x e. x / e)
             (residual_probs 1 2 2 [0, 1] None [1 / 2, 1 / 2, 1 / 2, 1 / 2] ! (0 * 2 + 1))
             (row_at 2 [1, 1 :: real] 0))) = 0"
    by code_simp
  ultimately show ?thesis by (rule conjI)
qed

text \<open>
  Claim C5 as it was stated fails: with the same request, the same distributions and
  the same exponential draws, the recovered tokens of positions 0 and 1 are 1 and 0;
  a rejection at position 0 writes 1, a rejection at position 1 writes 0.
\<close>

theorem recovered_token_of_position_counterexample:
  "sample_recovered_tokens 1 2 2
       (residual_probs 1 2 2 [0, 1] None [1 / 2, 1 / 2, 1 / 2, 1 / 2]) [1, 1] = [1, 0]
   \<and> rejection_sample 1 2 2 [0, 1] None [1 / 2, 1 / 2, 1 / 2, 1 / 2] [42]
        \<lparr>temperature = [1], all_greedy = False, all_random = True\<rparr> [3 / 4, 3 / 4] [1, 1]
      = [1, - 1, - 1]
   \<and> rejection_sample 1 2 2 [0, 1] None [1 / 2, 1 / 2, 1 / 2, 1 / 2] [42]
        \<lparr>temperature = [1], all_greedy = False, all_random = True\<rparr> [1 / 4, 3 / 4] [1, 1]
      = [0, 0, - 1]"
  by code_simp

subsection \<open>The target probabilities\<close>

lemma masked_store:
  assumes "j < length mem"
  shows "length (fold (\<lambda>off mem. if off < v then mem[base + off := blk ! off] else mem)
                   [0..<n] mem) = length mem
       \<and> fold (\<lambda>off mem. if off < v then mem[base + off := blk ! off] else mem) [0..<n] mem ! j
         = (if base \<le> j \<and> j < base + min n v then blk ! (j - base) else mem ! j)"
proof (induction n)
  case 0
  then show ?case by auto
next
  case (Suc n)
  show ?case
  proof (cases "n < v")
    case True
    show ?thesis
    proof (cases "j = base + n")
      case True
      with \<open>n < v\<close> Suc assms show ?thesis by simp
    next
      case False
      with \<open>n < v\<close> Suc assms show ?thesis by (auto simp: min_def)
    qed
  next
    case False
    with Suc show ?thesis by (auto simp: min_def)
  qed
qed

text \<open>The block of logits that a program loads, and the block it computes from it.\<close>

lemma compute_probs_kernel_in_range:
  assumes "pos < cu ! req_idx - start_idx_of cu req_idx" and "j < length output_prob"
  shows "compute_probs_kernel masked_lane output_prob logits temperature_ptr cu vocab_size
           padded req_idx pos ! j
     = (if (start_idx_of cu req_idx + pos) * vocab_size \<le> j
           \<and> j < (start_idx_of cu req_idx + pos) * vocab_size + min padded vocab_size
        then (if temperature_ptr ! req_idx = GREEDY_TEMPERATURE
              then map (\<lambda>off. if off < vocab_size
                               then logits ! packed_index cu vocab_size req_idx pos off
                               else masked_lane off) [0..<padded]
              else softmax (map (\<lambda>x. x / temperature_ptr ! req_idx)
                     (map (\<lambda>off. if off < vocab_size
                                  then logits ! packed_index cu vocab_size req_idx pos off
                                  else masked_lane off) [0..<padded])))
             ! (j - (start_idx_of cu req_idx + pos) * vocab_size)
        else output_prob ! j)"
proof -
  have "\<not> cu ! req_idx - start_idx_of cu req_idx \<le> pos" using assms(1) by simp
  then show ?thesis
    unfolding compute_probs_kernel_def Let_def packed_index_def
    using masked_store [OF assms(2), of vocab_size "(start_idx_of cu req_idx + pos) * vocab_size"
        _ padded]
    by simp
qed

lemma compute_probs_kernel_out_of_range:
  "cu ! req_idx - start_idx_of cu req_idx \<le> pos \<Longrightarrow>
   compute_probs_kernel masked_lane output_prob logits temperature_ptr cu vocab_size padded
     req_idx pos = output_prob"
  by (simp add: compute_probs_kernel_def Let_def)

lemma compute_probs_kernel_greedy:
  assumes "pos < cu ! req_idx - start_idx_of cu req_idx"
    and "temperature_ptr ! req_idx = GREEDY_TEMPERATURE"
    and "off < vocab_size" and "vocab_size \<le> padded"
    and "packed_index cu vocab_size req_idx pos off < length output_prob"
  shows "compute_probs_kernel masked_lane output_prob logits temperature_ptr cu vocab_size
           padded req_idx pos ! packed_index cu vocab_size req_idx pos off
         = logits ! packed_index cu vocab_size req_idx pos off"
  using assms compute_probs_kernel_in_range [OF assms(1,5)]
  by (simp add: packed_index_def min_def)

lemma softmax_nth:
  "i < length xs \<Longrightarrow>
   softmax xs ! i = exp (xs ! i - Max (set xs)) / (\<Sum>x\<leftarrow>xs. exp (x - Max (set xs)))"
  by (simp add: softmax_def Let_def comp_def)

lemma length_softmax [simp]: "length (softmax xs) = length xs"
  by (simp add: softmax_def Let_def)

lemma sum_list_softmax:
  assumes "xs \<noteq> []"
  shows "sum_list (softmax xs) = 1"
proof -
  let ?num = "map (\<lambda>x. exp (x - Max (set xs))) xs"
  have "\<forall>e \<in> set ?num. 0 < e" by auto
  moreover have "?num \<noteq> []" using assms by simp
  ultimately have pos: "0 < sum_list ?num" by (intro sum_list_positive)
  have "sum_list (map (\<lambda>e. e * inverse (sum_list ?num)) ?num)
        = sum_list ?num * inverse (sum_list ?num)"
    using sum_list_mult_const [of "\<lambda>x. x" "inverse (sum_list ?num)" ?num] by simp
  with pos show ?thesis
    by (simp add: softmax_def Let_def comp_def divide_inverse)
qed

text \<open>
  With as many lanes as vocabulary entries, a random row is the softmax of the logits
  divided by the temperature.
\<close>

lemma compute_probs_kernel_random_exact:
  assumes "pos < cu ! req_idx - start_idx_of cu req_idx"
    and "temperature_ptr ! req_idx \<noteq> GREEDY_TEMPERATURE"
    and "off < vocab_size"
    and "packed_index cu vocab_size req_idx pos off < length output_prob"
  shows "compute_probs_kernel masked_lane output_prob logits temperature_ptr cu vocab_size
           vocab_size req_idx pos ! packed_index cu vocab_size req_idx pos off
         = softmax (map (\<lambda>off. logits ! packed_index cu vocab_size req_idx pos off
                                / temperature_ptr ! req_idx) [0..<vocab_size]) ! off"
proof -
  have eq: "map ((\<lambda>x. x / temperature_ptr ! req_idx) \<circ>
             (\<lambda>off. if off < vocab_size
                    then logits ! packed_index cu vocab_size req_idx pos off
                    else masked_lane off)) [0..<vocab_size]
        = map (\<lambda>off. logits ! packed_index cu vocab_size req_idx pos off
                        / temperature_ptr ! req_idx) [0..<vocab_size]"
    by simp
  from assms compute_probs_kernel_in_range [OF assms(1,4), of masked_lane logits temperature_ptr
      vocab_size vocab_size]
  have "compute_probs_kernel masked_lane output_prob logits temperature_ptr cu vocab_size
           vocab_size req_idx pos ! packed_index cu vocab_size req_idx pos off
        = softmax (map ((\<lambda>x. x / temperature_ptr ! req_idx) \<circ>
             (\<lambda>off. if off < vocab_size
                    then logits ! packed_index cu vocab_size req_idx pos off
                    else masked_lane off)) [0..<vocab_size]) ! off"
    by (simp add: packed_index_def)
  then show ?thesis unfolding eq .
qed

lemma take_softmax_sum:
  assumes "v < length xs"
  shows "sum_list (take v (softmax xs)) < 1"
proof -
  define num where "num = map (\<lambda>x. exp (x - Max (set xs))) xs"
  define den where "den = sum_list num"
  have sm: "softmax xs = map (\<lambda>e. e / den) num"
    by (simp add: softmax_def Let_def num_def den_def comp_def)
  have pos: "\<forall>e \<in> set num. 0 < e" by (auto simp: num_def)
  have "drop v num \<noteq> []" using assms by (simp add: num_def)
  moreover have "\<forall>e \<in> set (drop v num). 0 < e"
    using pos by (meson in_set_dropD)
  ultimately have rest: "0 < sum_list (drop v num)" by (intro sum_list_positive)
  have "\<forall>e \<in> set (take v num). 0 \<le> e"
    using pos by (meson in_set_takeD less_imp_le)
  then have first: "0 \<le> sum_list (take v num)" by (simp add: sum_list_nonneg)
  have den: "den = sum_list (take v num) + sum_list (drop v num)"
    unfolding den_def using sum_list_append [of "take v num" "drop v num"] by simp
  have "sum_list (take v (softmax xs)) = sum_list (map (\<lambda>e. e * inverse den) (take v num))"
    by (simp add: sm take_map divide_inverse)
  also have "\<dots> = sum_list (take v num) * inverse den"
    using sum_list_mult_const [of "\<lambda>x. x" "inverse den" "take v num"] by simp
  also have "\<dots> = sum_list (take v num) / den" by (simp add: divide_inverse)
  also have "\<dots> < 1" using den rest first by simp
  finally show ?thesis .
qed

text \<open>
  With more lanes than vocabulary entries, whatever real numbers the masked lanes hold,
  the random row that is stored does not sum to 1: the masked lanes take part in the
  sum that the softmax divides by.
\<close>

lemma compute_probs_kernel_random_padded:
  assumes "pos < cu ! req_idx - start_idx_of cu req_idx"
    and "temperature_ptr ! req_idx \<noteq> GREEDY_TEMPERATURE"
    and "vocab_size < padded"
    and "(start_idx_of cu req_idx + pos) * vocab_size + vocab_size \<le> length output_prob"
  shows "sum_list (map (\<lambda>off. compute_probs_kernel masked_lane output_prob logits
                                 temperature_ptr cu vocab_size padded req_idx pos
                               ! packed_index cu vocab_size req_idx pos off) [0..<vocab_size])
         < 1"
proof -
  define blk where "blk = map (\<lambda>x. x / temperature_ptr ! req_idx)
                     (map (\<lambda>off. if off < vocab_size
                                  then logits ! packed_index cu vocab_size req_idx pos off
                                  else masked_lane off) [0..<padded])"
  have lb: "length blk = padded" by (simp add: blk_def)
  have "map (\<lambda>off. compute_probs_kernel masked_lane output_prob logits
                                 temperature_ptr cu vocab_size padded req_idx pos
                               ! packed_index cu vocab_size req_idx pos off) [0..<vocab_size]
        = take vocab_size (softmax blk)"
  proof (rule nth_equalityI)
    show "length (map (\<lambda>off. compute_probs_kernel masked_lane output_prob logits
                                 temperature_ptr cu vocab_size padded req_idx pos
                               ! packed_index cu vocab_size req_idx pos off) [0..<vocab_size])
          = length (take vocab_size (softmax blk))"
      using lb assms(3) by simp
    fix off
    assume "off < length (map (\<lambda>off. compute_probs_kernel masked_lane output_prob logits
                                 temperature_ptr cu vocab_size padded req_idx pos
                               ! packed_index cu vocab_size req_idx pos off) [0..<vocab_size])"
    then have off: "off < vocab_size" by simp
    with assms(4) have j: "packed_index cu vocab_size req_idx pos off < length output_prob"
      by (simp add: packed_index_def)
    from compute_probs_kernel_in_range [OF assms(1) j, of masked_lane logits temperature_ptr
        vocab_size padded] off assms(2,3)
    show "map (\<lambda>off. compute_probs_kernel masked_lane output_prob logits
                                 temperature_ptr cu vocab_size padded req_idx pos
                               ! packed_index cu vocab_size req_idx pos off) [0..<vocab_size] ! off
          = take vocab_size (softmax blk) ! off"
      by (simp add: packed_index_def blk_def min_def)
  qed
  moreover have "sum_list (take vocab_size (softmax blk)) < 1"
    using assms(3) lb by (intro take_softmax_sum) simp
  ultimately show ?thesis by simp
qed

text \<open>
  Claim C6 at a vocabulary of 3 entries, one request with one draft token, logits
  \<open>[0, 0, 0]\<close> and temperature 1. The kernel is written for 4 lanes there. Launched
  with 4 lanes, with the masked lane reading 0, it stores the row \<open>[1/4, 1/4, 1/4]\<close>,
  where the softmax of the logits over the vocabulary is \<open>[1/3, 1/3, 1/3]\<close>. The
  function \<open>compute_probs\<close> itself does not get as far as the launch: it raises
  \<open>AttributeError\<close> and writes no row.
\<close>

theorem compute_probs_padded_lanes:
  "next_power_of_2 3 = 4
   \<and> compute_probs_grid (\<lambda>off. 0) [9, 9, 9] 3 [0, 0, 0] [1] [1] 1 (next_power_of_2 3)
       = [1 / 4, 1 / 4, 1 / 4]
   \<and> softmax (map (\<lambda>x. x / 1) [0, 0, 0]) = [1 / 3, 1 / 3, 1 / 3]
   \<and> compute_probs (\<lambda>off. 0) [9, 9, 9] 3 [0, 0, 0] [1] [1] 1 = Inl AttributeError"
proof -
  have n: "next_power_of_2 3 = 4" by code_simp
  have u4: "[0..<4] = [0, 1, 2, 3]" by code_simp
  have g: "List.product [0..<length [1 :: real]] [0..<1] = [(0, 0)]" by simp
  have s3: "softmax (map (\<lambda>x. x / 1) [0, 0, 0]) = [1 / 3, 1 / 3, 1 / 3]"
    by (simp add: softmax_def Let_def)
  have s4: "softmax [0, 0, 0, 0] = [1 / 4, 1 / 4, 1 / 4, 1 / 4]"
    by (simp add: softmax_def Let_def)
  have k: "compute_probs_grid (\<lambda>off. 0) [9, 9, 9] 3 [0, 0, 0] [1] [1] 1 (next_power_of_2 3)
           = [1 / 4, 1 / 4, 1 / 4]"
    unfolding compute_probs_grid_def g n
    by (simp add: compute_probs_kernel_def Let_def start_idx_of_def packed_index_def u4 s4
        GREEDY_TEMPERATURE_def)
  have e: "compute_probs (\<lambda>off. 0) [9, 9, 9] 3 [0, 0, 0] [1] [1] 1 = Inl AttributeError"
    by (simp add: compute_probs_def next_power_of_two_def)
  from n k s3 e show ?thesis by blast
qed

subsection \<open>The capacity of the staging buffer\<close>






end
